theory Spec2Isabelle
  imports Complex_Main "HOL-Library.Word" "HOL-Library.Log_Nat"
begin

section \<open>Python values\<close>

text \<open>
  Exceptions are values. Every exception below is a subclass of Python's \<open>Exception\<close>,
  so \<open>except Exception\<close> catches each of them; \<open>HTTPException\<close> carries the status
  code and the detail.
\<close>

datatype exn =
    ZeroDivisionError
  | ValueError
  | UnidentifiedImageError
  | Failure string
  | HTTPException nat string

subsection \<open>Floats\<close>

text \<open>
  A Python float is an IEEE double. A double is kept as the rational it denotes, and
  every float operation is the exact operation followed by \<open>fl\<close>, rounding to the
  nearest number with a 53 bit significand, ties to even. The exponent range is not
  bounded: overflow and subnormal numbers do not occur for the sizes and channel sums
  of an image. An integer operand is converted exactly, which holds below \<open>2^53\<close>.
\<close>

definition round_half_even :: "rat \<Rightarrow> int" where
  "round_half_even x = (let f = \<lfloor>x\<rfloor>; d = x - of_int f in
     if d < 1/2 then f else if 1/2 < d then f + 1 else if even f then f else f + 1)"

text \<open>For \<open>x > 0\<close>, the \<open>e\<close> with \<open>2^e \<le> x < 2^(e+1)\<close>.\<close>

definition float_exponent :: "rat \<Rightarrow> int" where
  "float_exponent x = (case quotient_of x of (a, b) \<Rightarrow>
     let k = bitlen a - bitlen b in if 2 powi k \<le> x then k else k - 1)"

definition fl :: "rat \<Rightarrow> rat" where
  "fl x = (if x = 0 then 0 else
     let u = 2 powi (float_exponent \<bar>x\<bar> - 52)
     in sgn x * of_int (round_half_even (\<bar>x\<bar> / u)) * u)"

text \<open>\<open>int(x)\<close> of a float truncates towards zero.\<close>

definition py_int :: "rat \<Rightarrow> int" where
  "py_int x = (if 0 \<le> x then \<lfloor>x\<rfloor> else \<lceil>x\<rceil>)"

section \<open>Rasters\<close>

text \<open>
  A Pillow image is a size and a buffer of pixels. The buffer is kept as a list of
  rows; a channel is a byte. \<open>wf_image\<close> says that the buffer has the shape that the
  size announces, which Pillow guarantees for every image it hands out.
\<close>

type_synonym byte = "8 word"
type_synonym rgb = "byte \<times> byte \<times> byte"
type_synonym rgba = "byte \<times> byte \<times> byte \<times> byte"
type_synonym color = "int \<times> int \<times> int"

record 'p image =
  width :: nat
  height :: nat
  rows :: "'p list list"

definition wf_image :: "'p image \<Rightarrow> bool" where
  "wf_image im \<longleftrightarrow> length (rows im) = height im \<and> (\<forall>r \<in> set (rows im). length r = width im)"

definition im_size :: "'p image \<Rightarrow> nat \<times> nat" where
  "im_size im = (width im, height im)"

text \<open>\<open>Image.new(mode, (w, h), v)\<close>.\<close>

definition image_new :: "nat \<Rightarrow> nat \<Rightarrow> 'p \<Rightarrow> 'p image" where
  "image_new w h v = \<lparr>width = w, height = h, rows = replicate h (replicate w v)\<rparr>"

text \<open>
  Pixel access \<open>pix[x, y]\<close> and \<open>m[x, y] = v\<close>. Every access of the source is inside
  \<open>range(w)\<close> and \<open>range(h)\<close> of the image's own size, where it cannot raise.
\<close>

definition getpixel :: "'p image \<Rightarrow> nat \<Rightarrow> nat \<Rightarrow> 'p" where
  "getpixel im x y = rows im ! y ! x"

definition putpixel :: "'p image \<Rightarrow> nat \<Rightarrow> nat \<Rightarrow> 'p \<Rightarrow> 'p image" where
  "putpixel im x y v = im\<lparr>rows := (rows im)[y := (rows im ! y)[x := v]]\<rparr>"

definition map_image :: "('p \<Rightarrow> 'q) \<Rightarrow> 'p image \<Rightarrow> 'q image" where
  "map_image f im = \<lparr>width = width im, height = height im, rows = map (map f) (rows im)\<rparr>"

text \<open>\<open>im.convert("RGB")\<close> of an RGBA image drops the alpha band; \<open>im.convert("RGBA")\<close>
  of an RGBA image is a copy.\<close>

definition convert_RGB :: "rgba image \<Rightarrow> rgb image" where
  "convert_RGB im = map_image (\<lambda>(r, g, b, a). (r, g, b)) im"

definition convert_RGBA :: "rgba image \<Rightarrow> rgba image" where
  "convert_RGBA im = map_image (\<lambda>p. p) im"

text \<open>The pixel access object of \<open>rgb.load()\<close> returns a tuple of Python integers.\<close>

definition load_rgb :: "rgb image \<Rightarrow> nat \<Rightarrow> nat \<Rightarrow> color" where
  "load_rgb im x y = (case getpixel im x y of (r, g, b) \<Rightarrow> (uint r, uint g, uint b))"

text \<open>
  \<open>im.crop((left, upper, right, lower))\<close> for a box that lies inside the image, the
  only boxes \<open>estimate_background_color\<close> builds.
\<close>

definition crop :: "'p image \<Rightarrow> int \<times> int \<times> int \<times> int \<Rightarrow> 'p image" where
  "crop im box = (case box of (l, u, r, b) \<Rightarrow>
     \<lparr>width = nat (r - l), height = nat (b - u),
      rows = map (\<lambda>row. take (nat (r - l)) (drop (nat l) row))
               (take (nat (b - u)) (drop (nat u) (rows im)))\<rparr>)"

text \<open>
  \<open>rgba.putalpha(mask)\<close> overwrites the alpha band of \<open>rgba\<close> with the band of
  \<open>mask\<close>, and raises \<open>ValueError\<close> when the sizes differ.
\<close>

definition putalpha :: "rgba image \<Rightarrow> byte image \<Rightarrow> exn + rgba image" where
  "putalpha im alpha =
     (if im_size alpha \<noteq> im_size im then Inl ValueError
      else Inr (im\<lparr>rows :=
        map (\<lambda>y. map (\<lambda>x. case getpixel im x y of (r, g, b, a) \<Rightarrow> (r, g, b, getpixel alpha x y))
                   [0..<width im])
            [0..<height im]\<rparr>))"

section \<open>Image normalizer: \<open>downscale_if_needed\<close>\<close>

text \<open>
  \<open>im.resize((new_w, new_h), Image.LANCZOS)\<close> returns an image of the requested size
  and raises \<open>ValueError\<close> when a side is below 1. The resampled pixels come from
  Pillow; they are the parameter \<open>lanczos\<close>.
\<close>

definition resize :: "('p image \<Rightarrow> nat \<Rightarrow> nat \<Rightarrow> 'p list list) \<Rightarrow> 'p image \<Rightarrow> int \<Rightarrow> int \<Rightarrow> exn + 'p image" where
  "resize lanczos im new_w new_h =
     (if new_w < 1 \<or> new_h < 1 then Inl ValueError
      else Inr \<lparr>width = nat new_w, height = nat new_h,
                rows = lanczos im (nat new_w) (nat new_h)\<rparr>)"

definition MAX_DIMENSION :: int where
  "MAX_DIMENSION = 2048"

definition downscale_if_needed :: "('p image \<Rightarrow> nat \<Rightarrow> nat \<Rightarrow> 'p list list) \<Rightarrow> 'p image \<Rightarrow> int \<Rightarrow> exn + 'p image" where
  "downscale_if_needed lanczos im max_dim =
     (let w = int (width im); h = int (height im) in
      if max w h \<le> max_dim then Inr im
      else if max w h = 0 then Inl ZeroDivisionError
      else let scale = fl (of_int max_dim / of_int (max w h));
               new_w = py_int (fl (of_int w * scale));
               new_h = py_int (fl (of_int h * scale))
           in resize lanczos im new_w new_h)"

section \<open>Background colour estimator\<close>

text \<open>
  \<open>ImageStat.Stat(c)\<close>: \<open>count\<close> is the number of pixels of a band, \<open>sum\<close> the sum of
  its values, \<open>mean\<close> the float \<open>sum / count\<close>.
\<close>

definition band_R :: "rgb \<Rightarrow> byte" where "band_R p = fst p"
definition band_G :: "rgb \<Rightarrow> byte" where "band_G p = fst (snd p)"
definition band_B :: "rgb \<Rightarrow> byte" where "band_B p = snd (snd p)"

definition stat_count :: "rgb image \<Rightarrow> nat" where
  "stat_count c = length (concat (rows c))"

definition stat_sum :: "(rgb \<Rightarrow> byte) \<Rightarrow> rgb image \<Rightarrow> int" where
  "stat_sum band c = (\<Sum>p \<leftarrow> concat (rows c). uint (band p))"

definition stat_mean :: "(rgb \<Rightarrow> byte) \<Rightarrow> rgb image \<Rightarrow> rat" where
  "stat_mean band c = fl (of_int (stat_sum band c) / of_nat (stat_count c))"

text \<open>The body of the loop over the corners; the state is \<open>sums\<close> and \<open>count\<close>.\<close>

fun corner_step :: "rgb image \<Rightarrow> (rat \<times> rat \<times> rat) \<times> nat \<Rightarrow> (rat \<times> rat \<times> rat) \<times> nat" where
  "corner_step c ((s0, s1, s2), count) =
     (if stat_count c > 0
      then ((fl (s0 + stat_mean band_R c), fl (s1 + stat_mean band_G c), fl (s2 + stat_mean band_B c)),
            count + 1)
      else ((s0, s1, s2), count))"

definition corners_of :: "rgb image \<Rightarrow> nat \<Rightarrow> rgb image list" where
  "corners_of im sample_size =
     (let w = int (width im); h = int (height im); s = int sample_size in
      [crop im (0, 0, min s w, min s h),
       crop im (max 0 (w - s), 0, w, min s h),
       crop im (0, max 0 (h - s), min s w, h),
       crop im (max 0 (w - s), max 0 (h - s), w, h)])"

definition estimate_background_color :: "rgb image \<Rightarrow> nat \<Rightarrow> color" where
  "estimate_background_color im sample_size =
     (case fold corner_step (corners_of im sample_size) ((0, 0, 0), 0) of
        ((s0, s1, s2), count) \<Rightarrow>
          if count = 0 then (255, 255, 255)
          else (py_int (fl (s0 / of_nat count)),
                py_int (fl (s1 / of_nat count)),
                py_int (fl (s2 / of_nat count))))"

text \<open>
  The corners that enter the sums are those with a pixel; the loop adds their means
  in floats, one after the other.
\<close>

definition float_sum :: "rat list \<Rightarrow> rat" where
  "float_sum xs = foldl (\<lambda>s x. fl (s + x)) 0 xs"

definition valid_corners :: "rgb image \<Rightarrow> nat \<Rightarrow> rgb image list" where
  "valid_corners im sample_size = filter (\<lambda>c. stat_count c > 0) (corners_of im sample_size)"

text \<open>
  In the words of the specification: the arithmetic mean of a band over all pixels of
  a corner, and the average of these per-corner means over the corners, both as exact
  rational numbers.
\<close>

definition arithmetic_mean :: "(rgb \<Rightarrow> byte) \<Rightarrow> rgb image \<Rightarrow> rat" where
  "arithmetic_mean band c = of_int (stat_sum band c) / of_nat (stat_count c)"

definition average_of_corner_means :: "(rgb \<Rightarrow> byte) \<Rightarrow> rgb image list \<Rightarrow> rat" where
  "average_of_corner_means band cs = sum_list (map (arithmetic_mean band) cs) / of_nat (length cs)"

section \<open>The mask builder's classification loop\<close>

fun color_distance_sq :: "color \<Rightarrow> color \<Rightarrow> int" where
  "color_distance_sq (r1, g1, b1) (r2, g2, b2) =
     (let dr = r1 - r2; dg = g1 - g2; db = b1 - b2 in dr * dr + dg * dg + db * db)"

text \<open>
  The body of the two nested loops of \<open>pillow_bg_remove\<close>: the state is the mask
  under construction and \<open>fg_count\<close>.
\<close>

fun mask_step :: "(nat \<Rightarrow> nat \<Rightarrow> color) \<Rightarrow> color \<Rightarrow> int \<Rightarrow> nat \<Rightarrow> nat \<Rightarrow> byte image \<times> nat \<Rightarrow> byte image \<times> nat" where
  "mask_step pix bg_color thr_sq y x (m, fg_count) =
     (if color_distance_sq (pix x y) bg_color > thr_sq
      then (putpixel m x y 255, fg_count + 1)
      else (putpixel m x y 0, fg_count))"

definition mask_row :: "(nat \<Rightarrow> nat \<Rightarrow> color) \<Rightarrow> color \<Rightarrow> int \<Rightarrow> nat \<Rightarrow> nat \<Rightarrow> byte image \<times> nat \<Rightarrow> byte image \<times> nat" where
  "mask_row pix bg_color thr_sq w y s = fold (mask_step pix bg_color thr_sq y) [0..<w] s"

text \<open>Lines 102 to 114: the fresh mask, \<open>thr_sq\<close>, and the loops over \<open>range(h)\<close> and \<open>range(w)\<close>.\<close>

definition build_mask :: "rgb image \<Rightarrow> color \<Rightarrow> int \<Rightarrow> nat \<Rightarrow> nat \<Rightarrow> byte image \<times> nat" where
  "build_mask rgb bg_color threshold w h =
     (let pix = load_rgb rgb;
          m = image_new w h 0;
          thr_sq = threshold * threshold
      in fold (mask_row pix bg_color thr_sq w) [0..<h] (m, 0))"

text \<open>The predicate the loop tests at a pixel, and the number of pixels that pass it.\<close>

definition is_fg :: "(nat \<Rightarrow> nat \<Rightarrow> color) \<Rightarrow> color \<Rightarrow> int \<Rightarrow> nat \<Rightarrow> nat \<Rightarrow> bool" where
  "is_fg pix bg_color thr_sq y x \<longleftrightarrow> color_distance_sq (pix x y) bg_color > thr_sq"

definition fg_total :: "(nat \<Rightarrow> nat \<Rightarrow> color) \<Rightarrow> color \<Rightarrow> int \<Rightarrow> nat \<Rightarrow> nat \<Rightarrow> nat" where
  "fg_total pix bg t w h = (\<Sum>y \<leftarrow> [0..<h]. length (filter (is_fg pix bg t y) [0..<w]))"

text \<open>
  \<open>fg_fraction = fg_count / (w * h)\<close> for the mask that one call builds from the
  background colour \<open>bg_color\<close>; the division raises on an image without pixels.
\<close>

definition fg_fraction :: "rgb image \<Rightarrow> color \<Rightarrow> int \<Rightarrow> exn + rat" where
  "fg_fraction rgb bg_color threshold =
     (let w = width rgb; h = height rgb;
          fg_count = snd (build_mask rgb bg_color threshold w h)
      in if w * h = 0 then Inl ZeroDivisionError
         else Inr (fl (of_nat fg_count / of_nat (w * h))))"

section \<open>Mask refiner\<close>

text \<open>
  The filters are Pillow's. \<open>MaxFilter(3)\<close> and \<open>MinFilter(3)\<close> run inside the
  \<open>try\<close> block, so they may raise; \<open>GaussianBlur(radius=1)\<close> runs outside of it.
\<close>

record pillow =
  max_filter3 :: "byte image \<Rightarrow> exn + byte image"
  min_filter3 :: "byte image \<Rightarrow> exn + byte image"
  gaussian_blur1 :: "byte image \<Rightarrow> byte image"

text \<open>
  \<open>for i in range(n): mask = mask.filter(f)\<close>, with the mask as \<open>m\<close>. An exception
  leaves the loop with the mask as the last assignment that completed left it.
\<close>

fun filter_loop :: "(byte image \<Rightarrow> exn + byte image) \<Rightarrow> nat \<Rightarrow> byte image \<Rightarrow> byte image \<times> exn option" where
  "filter_loop f 0 m = (m, None)"
| "filter_loop f (Suc n) m =
     (case f m of Inl e \<Rightarrow> (m, Some e) | Inr m' \<Rightarrow> filter_loop f n m')"

text \<open>Lines 118 to 125: the \<open>try\<close> block, \<open>except Exception: pass\<close>, and the blur.\<close>

definition refine_mask :: "pillow \<Rightarrow> byte image \<Rightarrow> int \<Rightarrow> byte image" where
  "refine_mask lib m smooth_radius =
     (let dilated = filter_loop (max_filter3 lib) (nat smooth_radius) m;
          m' = (case snd dilated of
                     Some e \<Rightarrow> fst dilated
                   | None \<Rightarrow> fst (filter_loop (min_filter3 lib) (nat smooth_radius) (fst dilated)))
      in gaussian_blur1 lib m')"

text \<open>Pillow's filters return an image of the size of their argument.\<close>

definition keeps_size :: "pillow \<Rightarrow> bool" where
  "keeps_size lib \<longleftrightarrow>
     (\<forall>m. im_size (gaussian_blur1 lib m) = im_size m)
     \<and> (\<forall>m m'. max_filter3 lib m = Inr m' \<longrightarrow> im_size m' = im_size m)
     \<and> (\<forall>m m'. min_filter3 lib m = Inr m' \<longrightarrow> im_size m' = im_size m)"

text \<open>
  In the words of the specification: the filters are applied in order and the first one
  that fails ends the sequence.
\<close>

fun apply_until_failure :: "(byte image \<Rightarrow> exn + byte image) list \<Rightarrow> byte image \<Rightarrow> byte image" where
  "apply_until_failure [] m = m"
| "apply_until_failure (f # fs) m =
     (case f m of Inl e \<Rightarrow> m | Inr m' \<Rightarrow> apply_until_failure fs m')"

section \<open>Heuristic pipeline: \<open>pillow_bg_remove\<close>\<close>

function pillow_bg_remove :: "pillow \<Rightarrow> rgba image \<Rightarrow> int \<Rightarrow> int \<Rightarrow> rat \<Rightarrow> exn + rgba image" where
  "pillow_bg_remove lib im threshold smooth_radius min_fg_fraction =
     (let rgb = convert_RGB im;
          bg_color = estimate_background_color rgb 10;
          w = width im; h = height im;
          built = build_mask rgb bg_color threshold w h;
          m = fst built; fg_count = snd built
      in if w * h = 0 then Inl ZeroDivisionError
         else if fl (of_nat fg_count / of_nat (w * h)) < min_fg_fraction \<and> threshold > 20
         then pillow_bg_remove lib im (max 20 (threshold - 15)) smooth_radius min_fg_fraction
         else putalpha (convert_RGBA im) (refine_mask lib m smooth_radius))"
  by pat_completeness auto
termination
  by (relation "measure (\<lambda>(lib, im, threshold, smooth_radius, min_fg_fraction). nat threshold)") auto

declare pillow_bg_remove.simps [simp del]

text \<open>
  The calls that one call of \<open>pillow_bg_remove\<close> makes to itself, first to last: the
  arguments of each call and the background colour that it computes.
\<close>

record call =
  call_threshold :: int
  call_smooth_radius :: int
  call_min_fg_fraction :: rat
  call_bg_color :: color

function pillow_bg_remove_calls :: "rgba image \<Rightarrow> int \<Rightarrow> int \<Rightarrow> rat \<Rightarrow> call list" where
  "pillow_bg_remove_calls im threshold smooth_radius min_fg_fraction =
     (let rgb = convert_RGB im;
          bg_color = estimate_background_color rgb 10;
          w = width im; h = height im;
          built = build_mask rgb bg_color threshold w h;
          fg_count = snd built;
          this = \<lparr>call_threshold = threshold, call_smooth_radius = smooth_radius,
                  call_min_fg_fraction = min_fg_fraction, call_bg_color = bg_color\<rparr>
      in if w * h = 0 then [this]
         else if fl (of_nat fg_count / of_nat (w * h)) < min_fg_fraction \<and> threshold > 20
         then this # pillow_bg_remove_calls im (max 20 (threshold - 15)) smooth_radius min_fg_fraction
         else [this])"
  by pat_completeness auto
termination
  by (relation "measure (\<lambda>(im, threshold, smooth_radius, min_fg_fraction). nat threshold)") auto

declare pillow_bg_remove_calls.simps [simp del]

text \<open>
  One call in pieces: the test of line 116, the record of the call, and lines 118 to 128
  that finish a call which does not retry.
\<close>

definition retries :: "rgba image \<Rightarrow> int \<Rightarrow> rat \<Rightarrow> bool" where
  "retries im threshold min_fg_fraction \<longleftrightarrow>
     (case fg_fraction (convert_RGB im) (estimate_background_color (convert_RGB im) 10) threshold of
        Inl e \<Rightarrow> False
      | Inr f \<Rightarrow> f < min_fg_fraction \<and> 20 < threshold)"

definition call_of :: "rgba image \<Rightarrow> int \<Rightarrow> int \<Rightarrow> rat \<Rightarrow> call" where
  "call_of im threshold smooth_radius min_fg_fraction =
     \<lparr>call_threshold = threshold, call_smooth_radius = smooth_radius,
      call_min_fg_fraction = min_fg_fraction,
      call_bg_color = estimate_background_color (convert_RGB im) 10\<rparr>"

definition finish :: "pillow \<Rightarrow> rgba image \<Rightarrow> int \<Rightarrow> int \<Rightarrow> exn + rgba image" where
  "finish lib im threshold smooth_radius =
     (if width im * height im = 0 then Inl ZeroDivisionError
      else putalpha (convert_RGBA im)
             (refine_mask lib
                (fst (build_mask (convert_RGB im) (estimate_background_color (convert_RGB im) 10)
                        threshold (width im) (height im)))
                smooth_radius))"

definition rgb_of :: "rgba \<Rightarrow> rgb" where
  "rgb_of p = (case p of (r, g, b, a) \<Rightarrow> (r, g, b))"

definition alpha_of :: "rgba \<Rightarrow> byte" where
  "alpha_of p = (case p of (r, g, b, a) \<Rightarrow> a)"

section \<open>Segmentation orchestrator: \<open>remove_background\<close>\<close>

text \<open>
  The optional \<open>rembg\<close> package and the PNG codec are outside the repository:
  \<open>REMBG_AVAILABLE\<close> is the import-time flag, \<open>save_png\<close> is \<open>im.save(buf, format="PNG")\<close>
  and \<open>open_rgba\<close> is \<open>Image.open(io.BytesIO(b)).convert("RGBA")\<close>.
\<close>

record rembg =
  REMBG_AVAILABLE :: bool
  rembg_remove :: "byte list \<Rightarrow> exn + byte list"
  save_png :: "rgba image \<Rightarrow> exn + byte list"
  open_rgba :: "byte list \<Rightarrow> exn + rgba image"

text \<open>The body of the \<open>try\<close> block.\<close>

definition rembg_attempt :: "rembg \<Rightarrow> rgba image \<Rightarrow> exn + rgba image" where
  "rembg_attempt ext im =
     (case save_png ext im of
        Inl e \<Rightarrow> Inl e
      | Inr buf_in \<Rightarrow>
          (case rembg_remove ext buf_in of
             Inl e \<Rightarrow> Inl e
           | Inr out_bytes \<Rightarrow> open_rgba ext out_bytes))"

text \<open>The default \<open>min_fg_fraction=0.001\<close> is the double nearest to one thousandth.\<close>

definition default_min_fg_fraction :: rat where
  "default_min_fg_fraction = fl (1 / 1000)"

definition remove_background :: "rembg \<Rightarrow> pillow \<Rightarrow> rgba image \<Rightarrow> bool \<Rightarrow> exn + rgba image" where
  "remove_background ext lib im do_rembg =
     (if REMBG_AVAILABLE ext \<and> do_rembg
      then (case rembg_attempt ext im of
              Inr out_im \<Rightarrow> Inr out_im
            | Inl e \<Rightarrow> pillow_bg_remove lib im 45 3 default_min_fg_fraction)
      else pillow_bg_remove lib im 45 3 default_min_fg_fraction)"

section \<open>The input of \<open>/upload\<close>\<close>

text \<open>
  Lines 167 to 195 of \<open>upload_garment\<close>, which turn the three form fields into
  \<open>img_bytes\<close>. The network and the codecs are parameters: \<open>requests_get\<close> returns the
  body or the text of the exception, \<open>urlparse_scheme\<close> is \<open>urlparse(url).scheme\<close>.
  The result comes with the fetches and decodings attempted, in order.
\<close>

record web =
  urlparse_scheme :: "string \<Rightarrow> string"
  requests_get :: "string \<Rightarrow> string + byte list"
  b64decode :: "string \<Rightarrow> exn + byte list"

datatype effect = Fetched string | Decoded string

definition MAX_UPLOAD_BYTES :: nat where
  "MAX_UPLOAD_BYTES = 8 * 1024 * 1024"

definition fetch_image_from_url :: "web \<Rightarrow> string \<Rightarrow> exn + byte list" where
  "fetch_image_from_url net url =
     (case requests_get net url of
        Inl e \<Rightarrow> Inl (HTTPException 400 (''Failed to fetch remote image: '' @ e))
      | Inr content \<Rightarrow> Inr content)"

text \<open>Truth of an optional string in a condition: neither \<open>None\<close> nor empty.\<close>

fun truthy :: "string option \<Rightarrow> bool" where
  "truthy None = False"
| "truthy (Some s) = (s \<noteq> [])"

definition upload_img_bytes :: "web \<Rightarrow> byte list option \<Rightarrow> string option \<Rightarrow> string option \<Rightarrow> effect list \<times> (exn + byte list)" where
  "upload_img_bytes net file image_url base64_image =
     (case file of
        Some data \<Rightarrow>
          if data = [] then ([], Inl (HTTPException 400 ''Empty file''))
          else if length data > MAX_UPLOAD_BYTES then ([], Inl (HTTPException 413 ''Uploaded file too large''))
          else ([], Inr data)
      | None \<Rightarrow>
          if truthy image_url then
            (let url = the image_url in
             if urlparse_scheme net url \<notin> {''http'', ''https''}
             then ([], Inl (HTTPException 400 ''image_url must be http(s)''))
             else (case fetch_image_from_url net url of
                     Inl e \<Rightarrow> ([Fetched url], Inl e)
                   | Inr img_bytes \<Rightarrow>
                       if length img_bytes > MAX_UPLOAD_BYTES
                       then ([Fetched url], Inl (HTTPException 413 ''Remote image too large''))
                       else ([Fetched url], Inr img_bytes)))
          else if truthy base64_image then
            (let s = the base64_image in
             if take 5 s = ''data:'' then
               (if CHR '','' \<notin> set s then ([], Inl (HTTPException 400 ''Invalid data URL''))
                else (let b64 = tl (dropWhile (\<lambda>c. c \<noteq> CHR '','') s)
                      in ([Decoded b64], b64decode net b64)))
             else (case b64decode net s of
                     Inl e \<Rightarrow> ([Decoded s], Inl (HTTPException 400 ''Provided base64_image is not valid base64''))
                   | Inr img_bytes \<Rightarrow> ([Decoded s], Inr img_bytes)))
          else ([], Inl (HTTPException 400 ''No file/image_url/base64_image provided'')))"

section \<open>Sample inputs\<close>

text \<open>Small rasters and filter libraries on which the theorems below are run.\<close>

definition plain_pillow :: pillow where
  "plain_pillow = \<lparr>max_filter3 = (\<lambda>m. Inr m), min_filter3 = (\<lambda>m. Inr m), gaussian_blur1 = (\<lambda>m. m)\<rparr>"

definition dilating_pillow :: pillow where
  "dilating_pillow = \<lparr>max_filter3 = (\<lambda>m. Inr (map_image (\<lambda>v. 255) m)),
      min_filter3 = (\<lambda>m. Inl (Failure ''MinFilter'')), gaussian_blur1 = (\<lambda>m. m)\<rparr>"

definition failing_pillow :: pillow where
  "failing_pillow = \<lparr>max_filter3 = (\<lambda>m. Inl (Failure ''MaxFilter'')),
      min_filter3 = (\<lambda>m. Inl (Failure ''MinFilter'')), gaussian_blur1 = (\<lambda>m. m)\<rparr>"

definition gray_1x1 :: "rgba image" where
  "gray_1x1 = \<lparr>width = 1, height = 1, rows = [[(128, 128, 128, 255)]]\<rparr>"

definition red_on_white :: "rgba image" where
  "red_on_white = \<lparr>width = 2, height = 1, rows = [[(255, 255, 255, 255), (255, 0, 0, 255)]]\<rparr>"

definition faint_blue_4x1 :: "rgba image" where
  "faint_blue_4x1 = \<lparr>width = 4, height = 1,
      rows = [[(0, 0, 0, 255), (0, 0, 0, 255), (0, 0, 0, 255), (0, 0, 48, 255)]]\<rparr>"

text \<open>
  A raster of 20 by 3 pixels, black but for two pixels of the top row: with sample size 10
  the left corners are its left half and the right corners its right half, 30 pixels
  each, and the values of a band add up to 40 in the left half and to 20 in the right half.
\<close>

definition two_dots_20x3 :: "rgb image" where
  "two_dots_20x3 = \<lparr>width = 20, height = 3,
      rows = [(40, 40, 40) # replicate 9 (0, 0, 0) @ (20, 20, 20) # replicate 9 (0, 0, 0),
              replicate 20 (0, 0, 0),
              replicate 20 (0, 0, 0)]\<rparr>"

definition near_white_rgb :: "rgb image" where
  "near_white_rgb = \<lparr>width = 1, height = 1, rows = [[(250, 250, 250)]]\<rparr>"

definition three_px_rgb :: "rgb image" where
  "three_px_rgb = \<lparr>width = 3, height = 1,
      rows = [[(255, 255, 255), (255, 255, 255), (249, 249, 249)]]\<rparr>"

definition black_1x1_mask :: "byte image" where
  "black_1x1_mask = \<lparr>width = 1, height = 1, rows = [[0]]\<rparr>"

definition sample_web :: web where
  "sample_web = \<lparr>urlparse_scheme = (\<lambda>u. take 4 u), requests_get = (\<lambda>u. Inr [1, 2, 3]),
      b64decode = (\<lambda>s. Inr [4, 5])\<rparr>"

definition broken_rembg :: rembg where
  "broken_rembg = \<lparr>REMBG_AVAILABLE = True, rembg_remove = (\<lambda>b. Inl (Failure ''rembg'')),
      save_png = (\<lambda>im. Inr []), open_rgba = (\<lambda>b. Inl UnidentifiedImageError)\<rparr>"

section \<open>Properties of the float model\<close>

text \<open>Rounding is monotone and keeps the sign.\<close>

lemma rhe_bounds: "\<lfloor>x\<rfloor> \<le> round_half_even x" "round_half_even x \<le> \<lfloor>x\<rfloor> + 1"
  by (simp_all add: round_half_even_def Let_def)

lemma rhe_of_int: "round_half_even (of_int n) = n"
  by (simp add: round_half_even_def)

lemma rhe_mono:
  assumes "x \<le> y"
  shows "round_half_even x \<le> round_half_even y"
proof (cases "\<lfloor>x\<rfloor> < \<lfloor>y\<rfloor>")
  case True
  have "round_half_even x \<le> \<lfloor>x\<rfloor> + 1" by (rule rhe_bounds)
  also have "\<dots> \<le> \<lfloor>y\<rfloor>" using True by simp
  also have "\<dots> \<le> round_half_even y" by (rule rhe_bounds)
  finally show ?thesis .
next
  case False
  moreover have "\<lfloor>x\<rfloor> \<le> \<lfloor>y\<rfloor>" using assms by (rule floor_mono)
  ultimately have eq: "\<lfloor>x\<rfloor> = \<lfloor>y\<rfloor>" by simp
  have "x - of_int \<lfloor>y\<rfloor> \<le> y - of_int \<lfloor>y\<rfloor>" using assms by simp
  then show ?thesis
    unfolding round_half_even_def Let_def eq by (auto split: if_splits)
qed

lemma pow2_pos: "0 < (2::rat) powi k"
  by simp

lemma pow2_add: "(2::rat) powi (a + b) = 2 powi a * 2 powi b"
  by (simp add: power_int_add)

lemma float_exponent_bounds:
  assumes "0 < x"
  shows "2 powi float_exponent x \<le> x" and "x < 2 powi (float_exponent x + 1)"
proof -
  obtain a b where q: "quotient_of x = (a, b)" by (cases "quotient_of x")
  have b: "0 < b" using quotient_of_denom_pos [OF q] .
  have x: "x = of_int a / of_int b" using quotient_of_div [OF q] .
  have a: "0 < a" using assms b x by (simp add: zero_less_divide_iff)
  define la where "la = bitlen a"
  define lb where "lb = bitlen b"
  have la0: "0 < la" using a by (simp add: la_def bitlen_alt_def)
  have lb0: "0 < lb" using b by (simp add: lb_def bitlen_alt_def)
  have ia: "2 ^ nat (la - 1) \<le> a" "a < 2 ^ nat la"
    using bitlen_bounds [OF a] by (simp_all add: la_def)
  have ib: "2 ^ nat (lb - 1) \<le> b" "b < 2 ^ nat lb"
    using bitlen_bounds [OF b] by (simp_all add: lb_def)
  have pa1: "(2::rat) powi (la - 1) \<le> of_int a"
  proof -
    have "(2::rat) powi (la - 1) = 2 ^ nat (la - 1)" using la0 by (simp add: power_int_def)
    also have "\<dots> = of_int (2 ^ nat (la - 1))" by simp
    also have "\<dots> \<le> of_int a" using ia(1) by (simp only: of_int_le_iff)
    finally show ?thesis .
  qed
  have pa2: "of_int a < (2::rat) powi la"
  proof -
    have "(of_int a :: rat) < of_int (2 ^ nat la)" using ia(2) by (simp only: of_int_less_iff)
    also have "\<dots> = 2 ^ nat la" by simp
    also have "\<dots> = (2::rat) powi la" using la0 by (simp add: power_int_def)
    finally show ?thesis .
  qed
  have pb1: "(2::rat) powi (lb - 1) \<le> of_int b"
  proof -
    have "(2::rat) powi (lb - 1) = 2 ^ nat (lb - 1)" using lb0 by (simp add: power_int_def)
    also have "\<dots> = of_int (2 ^ nat (lb - 1))" by simp
    also have "\<dots> \<le> of_int b" using ib(1) by (simp only: of_int_le_iff)
    finally show ?thesis .
  qed
  have pb2: "of_int b < (2::rat) powi lb"
  proof -
    have "(of_int b :: rat) < of_int (2 ^ nat lb)" using ib(2) by (simp only: of_int_less_iff)
    also have "\<dots> = 2 ^ nat lb" by simp
    also have "\<dots> = (2::rat) powi lb" using lb0 by (simp add: power_int_def)
    finally show ?thesis .
  qed
  have bq: "(0::rat) < of_int b" using b by simp
  have up: "x < 2 powi (la - lb + 1)"
  proof -
    have "of_int a < (2::rat) powi (la - lb + 1) * 2 powi (lb - 1)"
      using pa2 by (simp add: power_int_add [symmetric])
    also have "\<dots> \<le> 2 powi (la - lb + 1) * of_int b"
      using pb1 by (simp add: mult_left_mono)
    finally show ?thesis using bq by (simp add: x pos_divide_less_eq)
  qed
  have lo: "2 powi (la - lb - 1) \<le> x"
  proof -
    have "(2::rat) powi (la - lb - 1) * of_int b \<le> 2 powi (la - lb - 1) * 2 powi lb"
      using pb2 by (simp add: mult_left_mono)
    also have "\<dots> = 2 powi (la - 1)" by (simp add: power_int_add [symmetric])
    also have "\<dots> \<le> of_int a" by (rule pa1)
    finally show ?thesis using bq by (simp add: x pos_le_divide_eq)
  qed
  have fe: "float_exponent x = (if 2 powi (la - lb) \<le> x then la - lb else la - lb - 1)"
    by (simp add: float_exponent_def q la_def lb_def Let_def)
  show "2 powi float_exponent x \<le> x" using lo by (simp add: fe)
  show "x < 2 powi (float_exponent x + 1)" using up by (simp add: fe not_le)
qed

lemma float_exponent_mono:
  assumes "0 < x" "x \<le> y"
  shows "float_exponent x \<le> float_exponent y"
proof (rule ccontr)
  assume "\<not> ?thesis"
  then have "float_exponent y + 1 \<le> float_exponent x" by simp
  then have "(2::rat) powi (float_exponent y + 1) \<le> 2 powi float_exponent x"
    by (intro power_int_increasing) simp_all
  moreover have "y < 2 powi (float_exponent y + 1)" using assms by (intro float_exponent_bounds) simp
  moreover have "2 powi float_exponent x \<le> x" using assms by (intro float_exponent_bounds)
  ultimately show False using assms by simp
qed

lemma fl_pos_eq:
  assumes "0 < x"
  shows "fl x = of_int (round_half_even (x / 2 powi (float_exponent x - 52))) * 2 powi (float_exponent x - 52)"
  using assms by (simp add: fl_def Let_def)

lemma fl_minus: "fl (- x) = - fl x"
  by (simp add: fl_def Let_def sgn_minus)

lemma scaled_bounds:
  assumes "0 < x"
  shows "2 ^ 52 \<le> x / 2 powi (float_exponent x - 52)" "x / 2 powi (float_exponent x - 52) \<le> 2 ^ 53"
proof -
  let ?e = "float_exponent x"
  have u: "(0::rat) < 2 powi (?e - 52)" by simp
  have "(2::rat) ^ 52 * 2 powi (?e - 52) = 2 powi 52 * 2 powi (?e - 52)" by simp
  also have "\<dots> = 2 powi (52 + (?e - 52))" by (rule pow2_add [symmetric])
  also have "\<dots> = 2 powi ?e" by simp
  also have "\<dots> \<le> x" using assms by (rule float_exponent_bounds)
  finally show "2 ^ 52 \<le> x / 2 powi (?e - 52)" using u by (simp add: pos_le_divide_eq)
  have "x \<le> 2 powi (?e + 1)" using float_exponent_bounds(2) [OF assms] by simp
  also have "\<dots> = 2 powi (53 + (?e - 52))" by (rule arg_cong [where f = "\<lambda>k. 2 powi k"]) simp
  also have "\<dots> = 2 powi 53 * 2 powi (?e - 52)" by (rule pow2_add)
  also have "\<dots> = (2::rat) ^ 53 * 2 powi (?e - 52)" by simp
  finally show "x / 2 powi (?e - 52) \<le> 2 ^ 53" using u by (simp add: pos_divide_le_eq)
qed

lemma fl_pos_bounds:
  assumes "0 < x"
  shows "2 powi float_exponent x \<le> fl x" "fl x \<le> 2 powi (float_exponent x + 1)"
proof -
  let ?e = "float_exponent x"
  let ?u = "(2::rat) powi (?e - 52)"
  let ?r = "round_half_even (x / ?u)"
  have u: "0 < ?u" by simp
  have "round_half_even (of_int (2 ^ 52)) \<le> ?r"
    using scaled_bounds(1) [OF assms] by (intro rhe_mono) simp
  then have r1: "2 ^ 52 \<le> ?r" by (simp only: rhe_of_int)
  have "?r \<le> round_half_even (of_int (2 ^ 53))"
    using scaled_bounds(2) [OF assms] by (intro rhe_mono) simp
  then have r2: "?r \<le> 2 ^ 53" by (simp only: rhe_of_int)
  have q1: "(of_int (2 ^ 52) :: rat) \<le> of_int ?r" using r1 by (simp only: of_int_le_iff)
  have q2: "(of_int ?r :: rat) \<le> of_int (2 ^ 53)" using r2 by (simp only: of_int_le_iff)
  have "(2::rat) powi ?e = 2 powi (52 + (?e - 52))" by simp
  also have "\<dots> = 2 powi 52 * ?u" by (rule pow2_add)
  also have "\<dots> = of_int (2 ^ 52) * ?u" by simp
  also have "\<dots> \<le> of_int ?r * ?u" using q1 less_imp_le [OF u] by (rule mult_right_mono)
  finally show "2 powi ?e \<le> fl x" by (simp add: fl_pos_eq [OF assms])
  have "of_int ?r * ?u \<le> of_int (2 ^ 53) * ?u" using q2 less_imp_le [OF u] by (rule mult_right_mono)
  also have "\<dots> = 2 powi 53 * ?u" by simp
  also have "\<dots> = 2 powi (53 + (?e - 52))" by (rule pow2_add [symmetric])
  also have "\<dots> = 2 powi (?e + 1)" by (rule arg_cong [where f = "\<lambda>k. 2 powi k"]) simp
  finally show "fl x \<le> 2 powi (?e + 1)" by (simp add: fl_pos_eq [OF assms])
qed

lemma fl_pos: "0 < x \<Longrightarrow> 0 < fl x"
  by (rule less_le_trans [OF pow2_pos fl_pos_bounds(1)])

lemma fl_mono_pos:
  assumes "0 < x" "x \<le> y"
  shows "fl x \<le> fl y"
proof -
  have y: "0 < y" using assms by simp
  have le: "float_exponent x \<le> float_exponent y" using assms by (rule float_exponent_mono)
  show ?thesis
  proof (cases "float_exponent x = float_exponent y")
    case True
    let ?u = "(2::rat) powi (float_exponent y - 52)"
    have u: "0 < ?u" by simp
    have "x / ?u \<le> y / ?u" using assms(2) u by (simp add: divide_right_mono)
    then have "round_half_even (x / ?u) \<le> round_half_even (y / ?u)" by (rule rhe_mono)
    then have "(of_int (round_half_even (x / ?u)) :: rat) \<le> of_int (round_half_even (y / ?u))"
      by (simp only: of_int_le_iff)
    then have "of_int (round_half_even (x / ?u)) * ?u \<le> of_int (round_half_even (y / ?u)) * ?u"
      using less_imp_le [OF u] by (rule mult_right_mono)
    then show ?thesis by (simp add: fl_pos_eq [OF assms(1)] fl_pos_eq [OF y] True)
  next
    case False
    with le have "float_exponent x + 1 \<le> float_exponent y" by simp
    then have "(2::rat) powi (float_exponent x + 1) \<le> 2 powi float_exponent y"
      by (intro power_int_increasing) simp_all
    with fl_pos_bounds(2) [OF assms(1)] fl_pos_bounds(1) [OF y] show ?thesis by simp
  qed
qed

lemma fl_zero: "fl 0 = 0"
  by (simp add: fl_def)

lemma fl_mono:
  assumes "x \<le> y"
  shows "fl x \<le> fl y"
proof -
  consider "0 < x" | "x \<le> 0" "0 \<le> y" | "y < 0" by linarith
  then show ?thesis
  proof cases
    case 1
    then show ?thesis using assms by (rule fl_mono_pos)
  next
    case 2
    have "fl x \<le> 0"
    proof (cases "x = 0")
      case True then show ?thesis by (simp add: fl_zero)
    next
      case False
      with 2 have "0 < - x" by simp
      from fl_pos [OF this] show ?thesis by (simp add: fl_minus)
    qed
    moreover have "0 \<le> fl y"
    proof (cases "y = 0")
      case True then show ?thesis by (simp add: fl_zero)
    next
      case False
      with 2 have "0 < y" by simp
      from fl_pos [OF this] show ?thesis by simp
    qed
    ultimately show ?thesis by simp
  next
    case 3
    then have "0 < - y" "- y \<le> - x" using assms by simp_all
    then have "fl (- y) \<le> fl (- x)" by (rule fl_mono_pos)
    then show ?thesis by (simp add: fl_minus)
  qed
qed

section \<open>Properties of the classification loop\<close>

lemma wf_image_new: "wf_image (image_new w h v)"
  by (simp add: wf_image_def image_new_def)

lemma wf_putpixel:
  assumes "wf_image m"
  shows "wf_image (putpixel m x y v)"
proof -
  have "length r = width m" if "r \<in> set ((rows m)[y := (rows m ! y)[x := v]])" for r
  proof (cases "y < length (rows m)")
    case True
    from that set_update_subset_insert [of "rows m" y "(rows m ! y)[x := v]"]
    have "r = (rows m ! y)[x := v] \<or> r \<in> set (rows m)" by auto
    then show ?thesis using assms True by (auto simp: wf_image_def)
  next
    case False
    then have "length (rows m) \<le> y" by (simp add: not_less)
    then have "(rows m)[y := (rows m ! y)[x := v]] = rows m" by (rule list_update_beyond)
    with that have "r \<in> set (rows m)" by simp
    then show ?thesis using assms by (simp add: wf_image_def)
  qed
  then show ?thesis using assms by (simp add: wf_image_def putpixel_def)
qed

lemma size_putpixel: "width (putpixel m x y v) = width m" "height (putpixel m x y v) = height m"
  by (simp_all add: putpixel_def)

lemma getpixel_putpixel:
  assumes "wf_image m" "x < width m" "y < height m"
  shows "getpixel (putpixel m x y v) x' y' = (if x' = x \<and> y' = y then v else getpixel m x' y')"
proof -
  have ly: "y < length (rows m)" using assms by (simp add: wf_image_def)
  then have lx: "x < length (rows m ! y)" using assms by (simp add: wf_image_def)
  show ?thesis using ly lx by (auto simp: getpixel_def putpixel_def nth_list_update)
qed

lemma mask_step_props:
  assumes "wf_image m" "x < width m" "y < height m"
    and "mask_step pix bg t y x (m, c) = (m', c')"
  shows "wf_image m' \<and> width m' = width m \<and> height m' = height m
    \<and> (\<forall>x' y'. getpixel m' x' y' =
          (if x' = x \<and> y' = y then (if is_fg pix bg t y x then 255 else 0) else getpixel m x' y'))
    \<and> c' = c + (if is_fg pix bg t y x then 1 else 0)"
  using assms by (auto simp: is_fg_def wf_putpixel size_putpixel getpixel_putpixel split: if_splits)

lemma mask_row_upto:
  assumes "wf_image m" "n \<le> width m" "y < height m"
    and "fold (mask_step pix bg t y) [0..<n] (m, c) = (m', c')"
  shows "wf_image m' \<and> width m' = width m \<and> height m' = height m
    \<and> (\<forall>x' y'. getpixel m' x' y' =
          (if x' < n \<and> y' = y then (if is_fg pix bg t y x' then 255 else 0) else getpixel m x' y'))
    \<and> c' = c + length (filter (is_fg pix bg t y) [0..<n])"
  using assms
proof (induction n arbitrary: m' c')
  case 0
  then show ?case by simp
next
  case (Suc n)
  obtain m1 c1 where f: "fold (mask_step pix bg t y) [0..<n] (m, c) = (m1, c1)"
    by (cases "fold (mask_step pix bg t y) [0..<n] (m, c)") auto
  from Suc.prems have nw: "n \<le> width m" and nlt: "n < width m" by simp_all
  note ih = Suc.IH [OF Suc.prems(1) nw Suc.prems(3) f]
  from Suc.prems(4) f have st: "mask_step pix bg t y n (m1, c1) = (m', c')" by simp
  have "wf_image m1" "n < width m1" "y < height m1" using ih nlt Suc.prems(3) by simp_all
  note sp = mask_step_props [OF this st]
  have px: "getpixel m' x' y' =
      (if x' < Suc n \<and> y' = y then (if is_fg pix bg t y x' then 255 else 0) else getpixel m x' y')"
    for x' y'
  proof -
    have a: "getpixel m' x' y' =
        (if x' = n \<and> y' = y then (if is_fg pix bg t y n then 255 else 0) else getpixel m1 x' y')"
      using sp by simp
    have b: "getpixel m1 x' y' =
        (if x' < n \<and> y' = y then (if is_fg pix bg t y x' then 255 else 0) else getpixel m x' y')"
      using ih by simp
    show ?thesis unfolding a b by (simp add: less_Suc_eq)
  qed
  have sz: "wf_image m'" "width m' = width m" "height m' = height m"
    using ih sp by simp_all
  have "c1 = c + length (filter (is_fg pix bg t y) [0..<n])" using ih by simp
  moreover have "c' = c1 + (if is_fg pix bg t y n then 1 else 0)" using sp by simp
  ultimately have cnt: "c' = c + length (filter (is_fg pix bg t y) [0..<Suc n])" by simp
  show ?case by (intro conjI allI) (rule sz px cnt)+
qed

lemma mask_row_props:
  assumes "wf_image m" "y < height m" "mask_row pix bg t (width m) y (m, c) = (m', c')"
  shows "wf_image m' \<and> width m' = width m \<and> height m' = height m
    \<and> (\<forall>x' y'. getpixel m' x' y' =
          (if x' < width m \<and> y' = y then (if is_fg pix bg t y x' then 255 else 0) else getpixel m x' y'))
    \<and> c' = c + length (filter (is_fg pix bg t y) [0..<width m])"
proof -
  from assms(3) have "fold (mask_step pix bg t y) [0..<width m] (m, c) = (m', c')"
    by (simp add: mask_row_def)
  from mask_row_upto [OF assms(1) order_refl assms(2) this] show ?thesis .
qed

lemma mask_rows_upto:
  assumes "wf_image m" "k \<le> height m" "width m = w"
    and "fold (mask_row pix bg t w) [0..<k] (m, c) = (m', c')"
  shows "wf_image m' \<and> width m' = w \<and> height m' = height m
    \<and> (\<forall>x' y'. getpixel m' x' y' =
          (if x' < w \<and> y' < k then (if is_fg pix bg t y' x' then 255 else 0) else getpixel m x' y'))
    \<and> c' = c + (\<Sum>y \<leftarrow> [0..<k]. length (filter (is_fg pix bg t y) [0..<w]))"
  using assms
proof (induction k arbitrary: m' c')
  case 0
  then show ?case by simp
next
  case (Suc k)
  obtain m1 c1 where f: "fold (mask_row pix bg t w) [0..<k] (m, c) = (m1, c1)"
    by (cases "fold (mask_row pix bg t w) [0..<k] (m, c)") auto
  from Suc.prems have kh: "k \<le> height m" and klt: "k < height m" by simp_all
  note ih = Suc.IH [OF Suc.prems(1) kh Suc.prems(3) f]
  from Suc.prems(4) f have "mask_row pix bg t w k (m1, c1) = (m', c')" by simp
  then have st: "mask_row pix bg t (width m1) k (m1, c1) = (m', c')" using ih by simp
  have "wf_image m1" "k < height m1" using ih klt by simp_all
  note rp = mask_row_props [OF this st]
  have px: "getpixel m' x' y' =
      (if x' < w \<and> y' < Suc k then (if is_fg pix bg t y' x' then 255 else 0) else getpixel m x' y')"
    for x' y'
  proof -
    have a: "getpixel m' x' y' =
        (if x' < width m1 \<and> y' = k then (if is_fg pix bg t k x' then 255 else 0) else getpixel m1 x' y')"
      using rp by simp
    have b: "getpixel m1 x' y' =
        (if x' < w \<and> y' < k then (if is_fg pix bg t y' x' then 255 else 0) else getpixel m x' y')"
      using ih by simp
    have w1: "width m1 = w" using ih by simp
    show ?thesis unfolding a b w1 by (auto simp: less_Suc_eq)
  qed
  have sz: "wf_image m'" "width m' = w" "height m' = height m"
    using ih rp by simp_all
  have "c1 = c + (\<Sum>y \<leftarrow> [0..<k]. length (filter (is_fg pix bg t y) [0..<w]))" using ih by simp
  moreover have "c' = c1 + length (filter (is_fg pix bg t k) [0..<width m1])" using rp by simp
  moreover have "width m1 = w" using ih by simp
  ultimately have cnt: "c' = c + (\<Sum>y \<leftarrow> [0..<Suc k]. length (filter (is_fg pix bg t y) [0..<w]))"
    by simp
  show ?case by (intro conjI allI) (rule sz px cnt)+
qed

lemma build_mask_props:
  assumes "build_mask rgb bg threshold w h = (m, c)"
  shows "wf_image m \<and> width m = w \<and> height m = h
    \<and> (\<forall>x y. x < w \<longrightarrow> y < h \<longrightarrow>
          getpixel m x y = (if is_fg (load_rgb rgb) bg (threshold * threshold) y x then 255 else 0))
    \<and> c = fg_total (load_rgb rgb) bg (threshold * threshold) w h"
proof -
  let ?m0 = "image_new w h (0 :: byte)"
  have f: "fold (mask_row (load_rgb rgb) bg (threshold * threshold) w) [0..<h] (?m0, 0) = (m, c)"
    using assms by (simp add: build_mask_def)
  have m0: "wf_image ?m0" "h \<le> height ?m0" "width ?m0 = w"
    by (simp add: wf_image_new) (simp_all add: image_new_def)
  have h0: "height ?m0 = h" by (simp add: image_new_def)
  from mask_rows_upto [OF m0 f] show ?thesis
    unfolding h0 fg_total_def by simp
qed

text \<open>
  Claim C3: the unrefined mask is binary. At every pixel of the raster the mask holds 255 when
  the squared RGB distance between the pixel and the background colour is strictly
  greater than the squared threshold, and 0 otherwise.
\<close>

theorem mask_is_binary_classification:
  "\<forall>x < w. \<forall>y < h.
     getpixel (fst (build_mask rgb bg_color threshold w h)) x y =
       (if color_distance_sq (load_rgb rgb x y) bg_color > threshold * threshold then 255 else 0)"
proof -
  obtain m c where b: "build_mask rgb bg_color threshold w h = (m, c)"
    by (cases "build_mask rgb bg_color threshold w h") auto
  from build_mask_props [OF b] show ?thesis
    by (simp add: b is_fg_def)
qed

theorem mask_is_binary_classification_witness:
  "(0::nat) < 2 \<and> (0::nat) < 1 \<and>
   getpixel (fst (build_mask \<lparr>width = 2, height = 1, rows = [[(255, 0, 0), (250, 250, 250)]]\<rparr>
     (255, 255, 255) 45 2 1)) 0 0 = 255"
proof -
  note t = mask_is_binary_classification [of 2 1
      "\<lparr>width = 2, height = 1, rows = [[(255, 0, 0), (250, 250, 250)]]\<rparr>" "(255, 255, 255)" 45,
      rule_format, of 0 0]
  have "(0::nat) < 2" "(0::nat) < 1" by simp_all
  from t [OF this] show ?thesis by (simp add: load_rgb_def getpixel_def)
qed

section \<open>Properties of the background colour estimator\<close>

lemma fl_255: "fl 255 = 255" by code_simp
lemma fl_510: "fl 510 = 510" by code_simp
lemma fl_765: "fl 765 = 765" by code_simp
lemma fl_1020: "fl 1020 = 1020" by code_simp

lemma set_take_drop_subset: "set (take n (drop k xs)) \<subseteq> set xs"
  using set_take_subset [of n "drop k xs"] set_drop_subset [of k xs] by blast

lemma crop_props:
  assumes "wf_image im" "l \<le> r" "r \<le> width im" "u \<le> b" "b \<le> height im"
  shows "wf_image (crop im (int l, int u, int r, int b))"
    and "width (crop im (int l, int u, int r, int b)) = r - l"
    and "height (crop im (int l, int u, int r, int b)) = b - u"
    and "x < r - l \<Longrightarrow> y < b - u \<Longrightarrow>
         getpixel (crop im (int l, int u, int r, int b)) x y = getpixel im (l + x) (u + y)"
proof -
  have d: "nat (int r - int l) = r - l" "nat (int b - int u) = b - u" by simp_all
  have rows: "rows (crop im (int l, int u, int r, int b))
      = map (\<lambda>row. take (r - l) (drop l row)) (take (b - u) (drop u (rows im)))"
    by (simp add: crop_def d)
  have len: "length (rows im) = height im" and row: "\<And>q. q \<in> set (rows im) \<Longrightarrow> length q = width im"
    using assms(1) by (simp_all add: wf_image_def)
  show w: "width (crop im (int l, int u, int r, int b)) = r - l" by (simp add: crop_def d)
  show h: "height (crop im (int l, int u, int r, int b)) = b - u" by (simp add: crop_def d)
  have l1: "length (take (b - u) (drop u (rows im))) = b - u" using assms(4,5) len by simp
  have l2: "length (take (r - l) (drop l q)) = r - l" if "q \<in> set (take (b - u) (drop u (rows im)))" for q
  proof -
    have "q \<in> set (rows im)"
      using that set_take_drop_subset [of "b - u" u "rows im"] by auto
    from row [OF this] assms(2,3) show ?thesis by simp
  qed
  show "wf_image (crop im (int l, int u, int r, int b))"
    unfolding wf_image_def w h rows using l1 l2 by auto
  assume xy: "x < r - l" "y < b - u"
  have uy: "u + y < length (rows im)" using xy assms(4,5) len by simp
  then have "rows im ! (u + y) \<in> set (rows im)" by simp
  from row [OF this] have lx: "l + x < length (rows im ! (u + y))" using xy assms(2,3) by simp
  show "getpixel (crop im (int l, int u, int r, int b)) x y = getpixel im (l + x) (u + y)"
    using xy uy lx l1 by (simp add: getpixel_def rows)
qed

lemma corner_offset: "max 0 (int w - int s) = int (w - min s w)"
  by (auto simp: min_def max_def)

lemma corner_extent: "min (int s) (int w) = int (min s w)"
  by (auto simp: min_def)

lemma corners_of_nat:
  "corners_of im S =
     [crop im (int 0, int 0, int (min S (width im)), int (min S (height im))),
      crop im (int (width im - min S (width im)), int 0, int (width im), int (min S (height im))),
      crop im (int 0, int (height im - min S (height im)), int (min S (width im)), int (height im)),
      crop im (int (width im - min S (width im)), int (height im - min S (height im)),
               int (width im), int (height im))]"
  by (simp add: corners_of_def Let_def corner_offset corner_extent)

lemma corners_geometry:
  assumes "wf_image im" "c \<in> set (corners_of im S)"
  shows "wf_image c \<and> width c = min S (width im) \<and> height c = min S (height im)"
proof -
  let ?w = "width im" and ?h = "height im"
  let ?m = "min S (width im)" and ?n = "min S (height im)"
  have 1: "wf_image (crop im (int 0, int 0, int ?m, int ?n))
      \<and> width (crop im (int 0, int 0, int ?m, int ?n)) = ?m
      \<and> height (crop im (int 0, int 0, int ?m, int ?n)) = ?n"
    using crop_props(1-3) [OF assms(1), of 0 ?m 0 ?n] by simp
  have 2: "wf_image (crop im (int (?w - ?m), int 0, int ?w, int ?n))
      \<and> width (crop im (int (?w - ?m), int 0, int ?w, int ?n)) = ?m
      \<and> height (crop im (int (?w - ?m), int 0, int ?w, int ?n)) = ?n"
    using crop_props(1-3) [OF assms(1), of "?w - ?m" ?w 0 ?n] by simp
  have 3: "wf_image (crop im (int 0, int (?h - ?n), int ?m, int ?h))
      \<and> width (crop im (int 0, int (?h - ?n), int ?m, int ?h)) = ?m
      \<and> height (crop im (int 0, int (?h - ?n), int ?m, int ?h)) = ?n"
    using crop_props(1-3) [OF assms(1), of 0 ?m "?h - ?n" ?h] by simp
  have 4: "wf_image (crop im (int (?w - ?m), int (?h - ?n), int ?w, int ?h))
      \<and> width (crop im (int (?w - ?m), int (?h - ?n), int ?w, int ?h)) = ?m
      \<and> height (crop im (int (?w - ?m), int (?h - ?n), int ?w, int ?h)) = ?n"
    using crop_props(1-3) [OF assms(1), of "?w - ?m" ?w "?h - ?n" ?h] by simp
  from assms(2) have "c = crop im (int 0, int 0, int ?m, int ?n)
      \<or> c = crop im (int (?w - ?m), int 0, int ?w, int ?n)
      \<or> c = crop im (int 0, int (?h - ?n), int ?m, int ?h)
      \<or> c = crop im (int (?w - ?m), int (?h - ?n), int ?w, int ?h)"
    unfolding corners_of_nat by simp
  then show ?thesis using 1 2 3 4 by blast
qed

lemma corners_pixels:
  assumes "wf_image im" "x < min S (width im)" "y < min S (height im)"
  shows "getpixel (corners_of im S ! 0) x y = getpixel im x y"
    and "getpixel (corners_of im S ! 1) x y = getpixel im (width im - min S (width im) + x) y"
    and "getpixel (corners_of im S ! 2) x y = getpixel im x (height im - min S (height im) + y)"
    and "getpixel (corners_of im S ! 3) x y
           = getpixel im (width im - min S (width im) + x) (height im - min S (height im) + y)"
proof -
  let ?w = "width im" and ?h = "height im"
  let ?m = "min S (width im)" and ?n = "min S (height im)"
  show "getpixel (corners_of im S ! 0) x y = getpixel im x y"
    using crop_props(4) [OF assms(1), of 0 ?m 0 ?n x y] assms(2,3) by (simp add: corners_of_nat)
  show "getpixel (corners_of im S ! 1) x y = getpixel im (?w - ?m + x) y"
    using crop_props(4) [OF assms(1), of "?w - ?m" ?w 0 ?n x y] assms(2,3) by (simp add: corners_of_nat)
  show "getpixel (corners_of im S ! 2) x y = getpixel im x (?h - ?n + y)"
    using crop_props(4) [OF assms(1), of 0 ?m "?h - ?n" ?h x y] assms(2,3) by (simp add: corners_of_nat)
  show "getpixel (corners_of im S ! 3) x y = getpixel im (?w - ?m + x) (?h - ?n + y)"
    using crop_props(4) [OF assms(1), of "?w - ?m" ?w "?h - ?n" ?h x y] assms(2,3)
    by (simp add: corners_of_nat numeral_3_eq_3)
qed

lemma length_concat_rows:
  "(\<forall>r \<in> set rs. length r = w) \<Longrightarrow> length (concat rs) = length rs * w"
  by (induction rs) auto

lemma stat_count_wf:
  assumes "wf_image c"
  shows "stat_count c = height c * width c"
proof -
  have "length (concat (rows c)) = length (rows c) * width c"
    by (rule length_concat_rows) (use assms in \<open>simp add: wf_image_def\<close>)
  then show ?thesis using assms by (simp add: stat_count_def wf_image_def)
qed

lemma length_corners_of: "length (corners_of im S) = 4"
  by (simp add: corners_of_def Let_def)

lemma valid_corners_all_or_none:
  assumes "wf_image im"
  shows "valid_corners im S =
     (if min S (width im) = 0 \<or> min S (height im) = 0 then [] else corners_of im S)"
proof -
  have "stat_count c = min S (height im) * min S (width im)" if "c \<in> set (corners_of im S)" for c
    using corners_geometry [OF assms that] by (simp add: stat_count_wf)
  then show ?thesis
    unfolding valid_corners_def by (auto simp: filter_empty_conv filter_id_conv)
qed

lemma fold_corner_step:
  "fold corner_step cs ((a0, a1, a2), k) =
     ((foldl (\<lambda>s x. fl (s + x)) a0 (map (stat_mean band_R) (filter (\<lambda>c. 0 < stat_count c) cs)),
       foldl (\<lambda>s x. fl (s + x)) a1 (map (stat_mean band_G) (filter (\<lambda>c. 0 < stat_count c) cs)),
       foldl (\<lambda>s x. fl (s + x)) a2 (map (stat_mean band_B) (filter (\<lambda>c. 0 < stat_count c) cs))),
      k + length (filter (\<lambda>c. 0 < stat_count c) cs))"
  by (induction cs arbitrary: a0 a1 a2 k) auto

lemma estimate_background_color_eq:
  "estimate_background_color im S =
     (if valid_corners im S = [] then (255, 255, 255)
      else (py_int (fl (float_sum (map (stat_mean band_R) (valid_corners im S))
                        / of_nat (length (valid_corners im S)))),
            py_int (fl (float_sum (map (stat_mean band_G) (valid_corners im S))
                        / of_nat (length (valid_corners im S)))),
            py_int (fl (float_sum (map (stat_mean band_B) (valid_corners im S))
                        / of_nat (length (valid_corners im S))))))"
  by (simp add: estimate_background_color_def fold_corner_step valid_corners_def float_sum_def)

lemma sum_uint_bound: "(\<Sum>p \<leftarrow> ps. uint (band p :: byte)) \<le> 255 * int (length ps)"
proof (induction ps)
  case Nil
  then show ?case by simp
next
  case (Cons p ps)
  have "uint (band p) < 2 ^ 8" using uint_bounded [of "band p"] by simp
  then have "uint (band p) \<le> 255" by simp
  with Cons show ?case by simp
qed

lemma sum_uint_nonneg: "0 \<le> (\<Sum>p \<leftarrow> ps. uint (band p :: byte))"
  by (induction ps) simp_all

lemma fl_range_255:
  assumes "0 \<le> q" "q \<le> 255"
  shows "0 \<le> fl q \<and> fl q \<le> 255"
  using fl_mono [OF assms(1)] fl_mono [OF assms(2)] by (simp add: fl_zero fl_255)

lemma stat_mean_range: "0 \<le> stat_mean band c \<and> stat_mean band c \<le> 255"
proof -
  let ?ps = "concat (rows c)"
  let ?s = "(\<Sum>p \<leftarrow> ?ps. uint (band p))"
  have n: "0 \<le> (of_int ?s :: rat) / of_nat (length ?ps)"
    using sum_uint_nonneg [of band ?ps] by simp
  have "(of_int ?s :: rat) \<le> of_int (255 * int (length ?ps))"
    using sum_uint_bound [of band ?ps] by (simp only: of_int_le_iff)
  then have le: "(of_int ?s :: rat) \<le> 255 * of_nat (length ?ps)" by simp
  have "(of_int ?s :: rat) / of_nat (length ?ps) \<le> 255"
  proof (cases "?ps = []")
    case True
    show ?thesis unfolding True by simp
  next
    case False
    then have "(0::rat) < of_nat (length ?ps)" by simp
    with le show ?thesis by (simp add: pos_divide_le_eq)
  qed
  with n show ?thesis unfolding stat_mean_def stat_sum_def stat_count_def by (intro fl_range_255)
qed

lemma fl_255_multiple:
  assumes "k \<le> 4"
  shows "fl (255 * of_nat k) = 255 * of_nat k"
proof -
  from assms have "k = 0 \<or> k = 1 \<or> k = 2 \<or> k = 3 \<or> k = 4" by auto
  then show ?thesis
    by (elim disjE) (simp_all add: fl_zero fl_255 fl_510 fl_765 fl_1020)
qed

lemma float_sum_snoc: "float_sum (xs @ [x]) = fl (float_sum xs + x)"
  by (simp add: float_sum_def)

lemma float_sum_range:
  assumes "\<forall>x \<in> set xs. 0 \<le> x \<and> x \<le> 255" "length xs \<le> 4"
  shows "0 \<le> float_sum xs \<and> float_sum xs \<le> 255 * of_nat (length xs)"
  using assms
proof (induction xs rule: rev_induct)
  case Nil
  then show ?case by (simp add: float_sum_def)
next
  case (snoc x xs)
  then have ih: "0 \<le> float_sum xs" "float_sum xs \<le> 255 * of_nat (length xs)"
    and x: "0 \<le> x" "x \<le> 255" by simp_all
  have "fl 0 \<le> fl (float_sum xs + x)" using ih(1) x(1) by (intro fl_mono) simp
  then have lo: "0 \<le> float_sum (xs @ [x])" by (simp add: fl_zero float_sum_snoc)
  have "float_sum xs + x \<le> 255 * of_nat (Suc (length xs))" using ih(2) x(2) by simp
  then have "fl (float_sum xs + x) \<le> fl (255 * of_nat (Suc (length xs)))" by (rule fl_mono)
  also have "\<dots> = 255 * of_nat (Suc (length xs))"
    using snoc.prems(2) by (intro fl_255_multiple) simp
  finally have "float_sum (xs @ [x]) \<le> 255 * of_nat (length (xs @ [x]))"
    by (simp add: float_sum_snoc)
  with lo show ?case by blast
qed

lemma py_int_range_255:
  assumes "0 \<le> q" "q \<le> 255"
  shows "0 \<le> py_int q \<and> py_int q \<le> 255"
proof -
  have "\<lfloor>q\<rfloor> \<le> \<lfloor>255 :: rat\<rfloor>" using assms(2) by (rule floor_mono)
  then show ?thesis using assms(1) by (simp add: py_int_def)
qed

lemma float_average_range:
  assumes "cs \<noteq> []" "length cs \<le> 4"
  shows "0 \<le> py_int (fl (float_sum (map (stat_mean band) cs) / of_nat (length cs)))
       \<and> py_int (fl (float_sum (map (stat_mean band) cs) / of_nat (length cs))) \<le> 255"
proof -
  let ?xs = "map (stat_mean band) cs"
  have "\<forall>x \<in> set ?xs. 0 \<le> x \<and> x \<le> 255" using stat_mean_range by auto
  moreover have "length ?xs \<le> 4" using assms(2) by simp
  ultimately have r: "0 \<le> float_sum ?xs" "float_sum ?xs \<le> 255 * of_nat (length ?xs)"
    using float_sum_range [of ?xs] by simp_all
  have pos: "(0::rat) < of_nat (length cs)" using assms(1) by simp
  have q1: "0 \<le> float_sum ?xs / of_nat (length cs)" using r(1) by simp
  have q2: "float_sum ?xs / of_nat (length cs) \<le> 255" using r(2) pos by (simp add: pos_divide_le_eq)
  from fl_range_255 [OF q1 q2] have "0 \<le> fl (float_sum ?xs / of_nat (length cs))"
    "fl (float_sum ?xs / of_nat (length cs)) \<le> 255" by simp_all
  from py_int_range_255 [OF this] show ?thesis .
qed

lemma length_valid_corners: "length (valid_corners im S) \<le> 4"
proof -
  have "length (valid_corners im S) \<le> length (corners_of im S)"
    unfolding valid_corners_def by (rule length_filter_le)
  then show ?thesis by (simp add: length_corners_of)
qed

text \<open>
  What holds of the estimator on every raster: the four crops are the \<open>min(S, W)\<close> by
  \<open>min(S, H)\<close> rectangles at the top left, top right, bottom left and bottom right; the
  corners that count are those with a pixel; the result is white when no corner counts;
  and every component of the result lies in 0..255.
\<close>

lemma estimate_background_color_corners:
  assumes "wf_image im"
  shows "(\<forall>c \<in> set (corners_of im S).
            wf_image c \<and> width c = min S (width im) \<and> height c = min S (height im))
    \<and> (\<forall>x < min S (width im). \<forall>y < min S (height im).
          getpixel (corners_of im S ! 0) x y = getpixel im x y
        \<and> getpixel (corners_of im S ! 1) x y = getpixel im (width im - min S (width im) + x) y
        \<and> getpixel (corners_of im S ! 2) x y = getpixel im x (height im - min S (height im) + y)
        \<and> getpixel (corners_of im S ! 3) x y
            = getpixel im (width im - min S (width im) + x) (height im - min S (height im) + y))
    \<and> valid_corners im S = filter (\<lambda>c. 0 < width c * height c) (corners_of im S)
    \<and> (valid_corners im S = [] \<longrightarrow> estimate_background_color im S = (255, 255, 255))
    \<and> (case estimate_background_color im S of
          (r, g, b) \<Rightarrow> 0 \<le> r \<and> r \<le> 255 \<and> 0 \<le> g \<and> g \<le> 255 \<and> 0 \<le> b \<and> b \<le> 255)"
proof -
  have g: "\<forall>c \<in> set (corners_of im S).
            wf_image c \<and> width c = min S (width im) \<and> height c = min S (height im)"
    using corners_geometry [OF assms] by blast
  have p: "\<forall>x < min S (width im). \<forall>y < min S (height im).
          getpixel (corners_of im S ! 0) x y = getpixel im x y
        \<and> getpixel (corners_of im S ! 1) x y = getpixel im (width im - min S (width im) + x) y
        \<and> getpixel (corners_of im S ! 2) x y = getpixel im x (height im - min S (height im) + y)
        \<and> getpixel (corners_of im S ! 3) x y
            = getpixel im (width im - min S (width im) + x) (height im - min S (height im) + y)"
    using corners_pixels [OF assms] by blast
  have v: "valid_corners im S = filter (\<lambda>c. 0 < width c * height c) (corners_of im S)"
    unfolding valid_corners_def
    by (rule filter_cong [OF refl]) (use g in \<open>simp add: stat_count_wf mult.commute\<close>)
  have w: "valid_corners im S = [] \<longrightarrow> estimate_background_color im S = (255, 255, 255)"
    by (simp add: estimate_background_color_eq)
  have r: "case estimate_background_color im S of
          (r, g, b) \<Rightarrow> 0 \<le> r \<and> r \<le> 255 \<and> 0 \<le> g \<and> g \<le> 255 \<and> 0 \<le> b \<and> b \<le> 255"
  proof (cases "valid_corners im S = []")
    case True
    then show ?thesis by (simp add: estimate_background_color_eq)
  next
    case False
    from float_average_range [OF False length_valid_corners] show ?thesis
      by (simp add: estimate_background_color_eq False)
  qed
  from g p v w r show ?thesis by blast
qed

text \<open>Runs on the sample rasters.\<close>

lemma red_on_white_color: "estimate_background_color (convert_RGB red_on_white) 10 = (255, 127, 127)"
  by code_simp

lemma two_dots_wf: "wf_image two_dots_20x3"
  by code_simp

lemma two_dots_corner_sizes:
  "map (\<lambda>c. (width c, height c)) (valid_corners two_dots_20x3 10) = [(10, 3), (10, 3), (10, 3), (10, 3)]"
  by code_simp

lemma two_dots_corner_means:
  "map (arithmetic_mean band_R) (valid_corners two_dots_20x3 10) = [4 / 3, 2 / 3, 4 / 3, 2 / 3]"
  "map (arithmetic_mean band_G) (valid_corners two_dots_20x3 10) = [4 / 3, 2 / 3, 4 / 3, 2 / 3]"
  "map (arithmetic_mean band_B) (valid_corners two_dots_20x3 10) = [4 / 3, 2 / 3, 4 / 3, 2 / 3]"
  by code_simp+

lemma two_dots_average:
  "average_of_corner_means band_R (valid_corners two_dots_20x3 10) = 1"
  "average_of_corner_means band_G (valid_corners two_dots_20x3 10) = 1"
  "average_of_corner_means band_B (valid_corners two_dots_20x3 10) = 1"
  by code_simp+

lemma two_dots_color: "estimate_background_color two_dots_20x3 10 = (0, 0, 0)"
  by code_simp

text \<open>
  Claim C4 fails in "returns the average of those per-corner means". On the well-formed
  raster \<open>two_dots_20x3\<close> with sample size 10 the four corners hold 30 pixels each, the
  arithmetic means of a band over them are 4/3, 2/3, 4/3 and 2/3, and the average of
  these means is exactly 1, an integer in 0..255. The code adds the float means to
  3.9999999999999996, divides by 4 and truncates, and returns 0 for every band.
\<close>

theorem estimate_background_color_two_dots:
  "map (\<lambda>c. (width c, height c)) (valid_corners two_dots_20x3 10)
        = [(10, 3), (10, 3), (10, 3), (10, 3)]
   \<and> map (arithmetic_mean band_R) (valid_corners two_dots_20x3 10) = [4 / 3, 2 / 3, 4 / 3, 2 / 3]
   \<and> map (arithmetic_mean band_G) (valid_corners two_dots_20x3 10) = [4 / 3, 2 / 3, 4 / 3, 2 / 3]
   \<and> map (arithmetic_mean band_B) (valid_corners two_dots_20x3 10) = [4 / 3, 2 / 3, 4 / 3, 2 / 3]
   \<and> average_of_corner_means band_R (valid_corners two_dots_20x3 10) = 1
   \<and> average_of_corner_means band_G (valid_corners two_dots_20x3 10) = 1
   \<and> average_of_corner_means band_B (valid_corners two_dots_20x3 10) = 1
   \<and> estimate_background_color two_dots_20x3 10 = (0, 0, 0)"
  by (intro conjI two_dots_corner_sizes two_dots_corner_means two_dots_average two_dots_color)

section \<open>Properties of the retry\<close>

lemma size_map_image: "width (map_image f im) = width im" "height (map_image f im) = height im"
  by (simp_all add: map_image_def)

lemma size_convert_RGB: "width (convert_RGB im) = width im" "height (convert_RGB im) = height im"
  by (simp_all add: convert_RGB_def size_map_image)

lemma size_convert_RGBA: "width (convert_RGBA im) = width im" "height (convert_RGBA im) = height im"
  by (simp_all add: convert_RGBA_def size_map_image)

lemma getpixel_convert_RGBA: "getpixel (convert_RGBA im) x y = getpixel im x y"
  by (simp add: convert_RGBA_def map_image_def getpixel_def)

lemma snd_build_mask: "snd (build_mask rgb bg t w h) = fg_total (load_rgb rgb) bg (t * t) w h"
  using build_mask_props [of rgb bg t w h "fst (build_mask rgb bg t w h)" "snd (build_mask rgb bg t w h)"]
  by simp

lemma size_build_mask:
  "width (fst (build_mask rgb bg t w h)) = w" "height (fst (build_mask rgb bg t w h)) = h"
  using build_mask_props [of rgb bg t w h "fst (build_mask rgb bg t w h)" "snd (build_mask rgb bg t w h)"]
  by simp_all

lemma pbr_step:
  "pillow_bg_remove lib im t sr mf =
     (if retries im t mf then pillow_bg_remove lib im (max 20 (t - 15)) sr mf else finish lib im t sr)"
  by (subst pillow_bg_remove.simps)
     (simp add: Let_def retries_def fg_fraction_def finish_def size_convert_RGB)

lemma calls_step:
  "pillow_bg_remove_calls im t sr mf =
     (if retries im t mf then call_of im t sr mf # pillow_bg_remove_calls im (max 20 (t - 15)) sr mf
      else [call_of im t sr mf])"
  by (subst pillow_bg_remove_calls.simps)
     (simp add: Let_def retries_def fg_fraction_def call_of_def size_convert_RGB)

lemma retries_above_20: "retries im t mf \<Longrightarrow> 20 < t"
  by (simp add: retries_def split: sum.splits)

lemma retry_measure: "retries im t mf \<Longrightarrow> nat (max 20 (t - 15)) < nat t"
  by (drule retries_above_20) simp

text \<open>
  The result of a call is that of its last call to itself, finished without a retry:
  the list of calls describes the run of \<open>pillow_bg_remove\<close>.
\<close>

lemma calls_nonempty: "pillow_bg_remove_calls im t sr mf \<noteq> []"
  by (subst calls_step) simp

lemma pillow_bg_remove_last_call:
  "pillow_bg_remove lib im t sr mf =
     finish lib im (call_threshold (last (pillow_bg_remove_calls im t sr mf))) sr"
proof (induction "nat t" arbitrary: t rule: less_induct)
  case less
  show ?case
  proof (cases "retries im t mf")
    case True
    have a: "pillow_bg_remove lib im t sr mf = pillow_bg_remove lib im (max 20 (t - 15)) sr mf"
      by (subst pbr_step) (simp add: True)
    have b: "pillow_bg_remove lib im (max 20 (t - 15)) sr mf =
        finish lib im (call_threshold (last (pillow_bg_remove_calls im (max 20 (t - 15)) sr mf))) sr"
      by (rule less.hyps [OF retry_measure [OF True]])
    have "pillow_bg_remove_calls im t sr mf =
        call_of im t sr mf # pillow_bg_remove_calls im (max 20 (t - 15)) sr mf"
      by (rule trans [OF calls_step]) (simp add: True)
    then have c: "last (pillow_bg_remove_calls im t sr mf) =
        last (pillow_bg_remove_calls im (max 20 (t - 15)) sr mf)"
      by (simp add: calls_nonempty)
    show ?thesis unfolding a b c ..
  next
    case False
    have "pillow_bg_remove_calls im t sr mf = [call_of im t sr mf]"
      by (rule trans [OF calls_step]) (simp add: False)
    moreover have "pillow_bg_remove lib im t sr mf = finish lib im t sr"
      by (rule trans [OF pbr_step]) (simp add: False)
    ultimately show ?thesis by (simp add: call_of_def)
  qed
qed

subsection \<open>The foreground fraction and the threshold\<close>

text \<open>Runs on the sample inputs.\<close>

lemma three_px_color: "estimate_background_color three_px_rgb 10 = (253, 253, 253)"
  by code_simp

lemma three_px_fraction_minus_5:
  "fg_fraction three_px_rgb (253, 253, 253) (-5) = Inr (6004799503160661 / 18014398509481984)"
  by code_simp

lemma three_px_fraction_0: "fg_fraction three_px_rgb (253, 253, 253) 0 = Inr 1"
  by code_simp

lemma gray_1x1_thresholds:
  "map call_threshold (pillow_bg_remove_calls gray_1x1 45 3 default_min_fg_fraction) = [45, 30, 20]"
  by code_simp

lemma filter_length_mono:
  assumes "\<And>x. P x \<Longrightarrow> Q x"
  shows "length (filter P xs) \<le> length (filter Q xs)"
  by (induction xs) (auto simp: assms le_SucI)

lemma fg_total_antimono:
  assumes "0 \<le> t1" "t1 \<le> t2"
  shows "fg_total pix bg (t2 * t2) w h \<le> fg_total pix bg (t1 * t1) w h"
proof -
  have sq: "t1 * t1 \<le> t2 * t2" using assms by (simp add: mult_mono)
  have "length (filter (is_fg pix bg (t2 * t2) y) xs) \<le> length (filter (is_fg pix bg (t1 * t1) y) xs)"
    for y xs
    by (rule filter_length_mono) (use sq in \<open>simp add: is_fg_def\<close>)
  then show ?thesis unfolding fg_total_def by (intro sum_list_mono)
qed

text \<open>
  Claim C7, amended: for a raster with at least one pixel, a fixed background colour
  and thresholds \<open>0 \<le> t1 \<le> t2\<close>, the foreground fraction at \<open>t1\<close> is at least the
  fraction at \<open>t2\<close>. The loop compares with the square of the threshold, so the
  order is that of the absolute values.
\<close>

theorem fg_fraction_antitone:
  assumes "0 < width rgb * height rgb" "0 \<le> t1" "t1 \<le> t2"
  shows "\<exists>f1 f2. fg_fraction rgb bg t1 = Inr f1 \<and> fg_fraction rgb bg t2 = Inr f2 \<and> f2 \<le> f1"
proof -
  let ?n = "width rgb * height rgb"
  let ?c = "\<lambda>t. fg_total (load_rgb rgb) bg (t * t) (width rgb) (height rgb)"
  have f: "fg_fraction rgb bg t = Inr (fl (of_nat (?c t) / of_nat ?n))" for t
    using assms(1) by (simp add: fg_fraction_def Let_def snd_build_mask)
  have "?c t2 \<le> ?c t1" using assms(2,3) by (rule fg_total_antimono)
  then have "(of_nat (?c t2) :: rat) / of_nat ?n \<le> of_nat (?c t1) / of_nat ?n"
    by (intro divide_right_mono) simp_all
  then have "fl (of_nat (?c t2) / of_nat ?n) \<le> fl (of_nat (?c t1) / of_nat ?n)"
    by (rule fl_mono)
  then show ?thesis by (simp add: f)
qed

theorem fg_fraction_antitone_witness:
  "0 < width near_white_rgb * height near_white_rgb \<and> (0::int) \<le> 5 \<and> (5::int) \<le> 45
   \<and> (\<exists>f1 f2. fg_fraction near_white_rgb (255, 255, 255) 5 = Inr f1
        \<and> fg_fraction near_white_rgb (255, 255, 255) 45 = Inr f2 \<and> f2 \<le> f1)"
  using fg_fraction_antitone [of near_white_rgb 5 45 "(255, 255, 255)"]
  by (simp add: near_white_rgb_def)

text \<open>
  Claim C7 as stated fails below zero. On a raster of three pixels whose estimated
  background colour is (253, 253, 253), \<open>-5 \<le> 0\<close>, yet the fraction at \<open>-5\<close> is
  the float of 1/3 and the fraction at \<open>0\<close> is 1.
\<close>

theorem fg_fraction_negative_threshold:
  "(-5::int) \<le> 0
   \<and> estimate_background_color three_px_rgb 10 = (253, 253, 253)
   \<and> fg_fraction three_px_rgb (253, 253, 253) (-5) = Inr (6004799503160661 / 18014398509481984)
   \<and> fg_fraction three_px_rgb (253, 253, 253) 0 = Inr 1
   \<and> \<not> ((1::rat) \<le> 6004799503160661 / 18014398509481984)"
  by (simp add: three_px_color three_px_fraction_minus_5 three_px_fraction_0)

subsection \<open>The retry\<close>

lemma calls_all:
  "c \<in> set (pillow_bg_remove_calls im t sr mf) \<Longrightarrow>
     call_bg_color c = estimate_background_color (convert_RGB im) 10
     \<and> call_smooth_radius c = sr \<and> call_min_fg_fraction c = mf"
proof (induction "nat t" arbitrary: t rule: less_induct)
  case less
  show ?case
  proof (cases "retries im t mf")
    case True
    from less.prems have "c = call_of im t sr mf \<or> c \<in> set (pillow_bg_remove_calls im (max 20 (t - 15)) sr mf)"
      by (subst (asm) calls_step) (simp add: True)
    then show ?thesis
    proof
      assume "c = call_of im t sr mf" then show ?thesis by (simp add: call_of_def)
    next
      assume "c \<in> set (pillow_bg_remove_calls im (max 20 (t - 15)) sr mf)"
      with less.hyps [OF retry_measure [OF True]] show ?thesis .
    qed
  next
    case False
    from less.prems have "c = call_of im t sr mf"
      by (subst (asm) calls_step) (simp add: False)
    then show ?thesis by (simp add: call_of_def)
  qed
qed

lemma calls_threshold_le:
  "c \<in> set (pillow_bg_remove_calls im t sr mf) \<Longrightarrow> call_threshold c \<le> t"
proof (induction "nat t" arbitrary: t rule: less_induct)
  case less
  show ?case
  proof (cases "retries im t mf")
    case True
    from less.prems have "c = call_of im t sr mf \<or> c \<in> set (pillow_bg_remove_calls im (max 20 (t - 15)) sr mf)"
      by (subst (asm) calls_step) (simp add: True)
    then show ?thesis
    proof
      assume "c = call_of im t sr mf" then show ?thesis by (simp add: call_of_def)
    next
      assume "c \<in> set (pillow_bg_remove_calls im (max 20 (t - 15)) sr mf)"
      with less.hyps [OF retry_measure [OF True]] have "call_threshold c \<le> max 20 (t - 15)" .
      with retries_above_20 [OF True] show ?thesis by simp
    qed
  next
    case False
    from less.prems have "c = call_of im t sr mf"
      by (subst (asm) calls_step) (simp add: False)
    then show ?thesis by (simp add: call_of_def)
  qed
qed

lemma finish_eq:
  assumes "width im * height im \<noteq> 0"
  shows "finish lib im t sr =
     putalpha (convert_RGBA im)
       (refine_mask lib
          (fst (build_mask (convert_RGB im) (estimate_background_color (convert_RGB im) 10) t
                  (width im) (height im))) sr)"
  using assms by (simp add: finish_def)

lemma fg_fraction_Inr_size:
  "fg_fraction (convert_RGB im) bg t = Inr f \<Longrightarrow> width im * height im \<noteq> 0"
  by (simp add: fg_fraction_def Let_def size_convert_RGB split: if_splits)

text \<open>
  Claim C1: when the foreground fraction of a call is below the minimum fraction and
  its threshold exceeds 20, the call returns what the call with threshold
  \<open>max(20, threshold - 15)\<close>, the same image, the same smoothing radius and the same
  minimum fraction returns; every call of the run, the retries included, computes the
  background colour of the first call; and the raster returned is the image with, as
  alpha, the refinement with the same smoothing radius of the mask built with that
  background colour at the threshold of the last call of the run, a threshold of at
  most \<open>max(20, threshold - 15)\<close>, and \<open>max(20, threshold - 15)\<close> itself when the
  retry does not retry again.
\<close>

theorem retry_rebuilds_with_lowered_threshold:
  assumes "fg_fraction (convert_RGB im) (estimate_background_color (convert_RGB im) 10) threshold = Inr f"
    and "f < min_fg_fraction" and "20 < threshold"
  shows "pillow_bg_remove lib im threshold smooth_radius min_fg_fraction
           = pillow_bg_remove lib im (max 20 (threshold - 15)) smooth_radius min_fg_fraction
    \<and> pillow_bg_remove_calls im threshold smooth_radius min_fg_fraction
           = call_of im threshold smooth_radius min_fg_fraction
             # pillow_bg_remove_calls im (max 20 (threshold - 15)) smooth_radius min_fg_fraction
    \<and> (\<forall>c \<in> set (pillow_bg_remove_calls im threshold smooth_radius min_fg_fraction).
          call_bg_color c = estimate_background_color (convert_RGB im) 10
          \<and> call_smooth_radius c = smooth_radius \<and> call_min_fg_fraction c = min_fg_fraction)
    \<and> call_threshold (last (pillow_bg_remove_calls im threshold smooth_radius min_fg_fraction))
          \<le> max 20 (threshold - 15)
    \<and> pillow_bg_remove lib im threshold smooth_radius min_fg_fraction
           = putalpha (convert_RGBA im)
               (refine_mask lib
                  (fst (build_mask (convert_RGB im) (estimate_background_color (convert_RGB im) 10)
                          (call_threshold
                             (last (pillow_bg_remove_calls im threshold smooth_radius min_fg_fraction)))
                          (width im) (height im)))
                  smooth_radius)
    \<and> (\<not> retries im (max 20 (threshold - 15)) min_fg_fraction \<longrightarrow>
         pillow_bg_remove lib im threshold smooth_radius min_fg_fraction
           = putalpha (convert_RGBA im)
               (refine_mask lib
                  (fst (build_mask (convert_RGB im) (estimate_background_color (convert_RGB im) 10)
                          (max 20 (threshold - 15)) (width im) (height im)))
                  smooth_radius))"
proof -
  have r: "retries im threshold min_fg_fraction" using assms by (simp add: retries_def)
  have sz: "width im * height im \<noteq> 0" using assms(1) by (rule fg_fraction_Inr_size)
  have 1: "pillow_bg_remove lib im threshold smooth_radius min_fg_fraction
           = pillow_bg_remove lib im (max 20 (threshold - 15)) smooth_radius min_fg_fraction"
    by (subst pbr_step) (simp add: r)
  have 2: "pillow_bg_remove_calls im threshold smooth_radius min_fg_fraction
           = call_of im threshold smooth_radius min_fg_fraction
             # pillow_bg_remove_calls im (max 20 (threshold - 15)) smooth_radius min_fg_fraction"
    by (subst calls_step) (simp add: r)
  have 3: "\<forall>c \<in> set (pillow_bg_remove_calls im threshold smooth_radius min_fg_fraction).
          call_bg_color c = estimate_background_color (convert_RGB im) 10
          \<and> call_smooth_radius c = smooth_radius \<and> call_min_fg_fraction c = min_fg_fraction"
    using calls_all by blast
  have l: "last (pillow_bg_remove_calls im threshold smooth_radius min_fg_fraction)
           = last (pillow_bg_remove_calls im (max 20 (threshold - 15)) smooth_radius min_fg_fraction)"
    unfolding 2 by (simp add: calls_nonempty)
  have "last (pillow_bg_remove_calls im (max 20 (threshold - 15)) smooth_radius min_fg_fraction)
          \<in> set (pillow_bg_remove_calls im (max 20 (threshold - 15)) smooth_radius min_fg_fraction)"
    by (rule last_in_set [OF calls_nonempty])
  then have 4: "call_threshold (last (pillow_bg_remove_calls im threshold smooth_radius min_fg_fraction))
          \<le> max 20 (threshold - 15)"
    unfolding l by (rule calls_threshold_le)
  have 5: "pillow_bg_remove lib im threshold smooth_radius min_fg_fraction
           = putalpha (convert_RGBA im)
               (refine_mask lib
                  (fst (build_mask (convert_RGB im) (estimate_background_color (convert_RGB im) 10)
                          (call_threshold
                             (last (pillow_bg_remove_calls im threshold smooth_radius min_fg_fraction)))
                          (width im) (height im)))
                  smooth_radius)"
    by (rule trans [OF pillow_bg_remove_last_call finish_eq [OF sz]])
  have 6: "\<not> retries im (max 20 (threshold - 15)) min_fg_fraction \<longrightarrow>
         pillow_bg_remove lib im threshold smooth_radius min_fg_fraction
           = putalpha (convert_RGBA im)
               (refine_mask lib
                  (fst (build_mask (convert_RGB im) (estimate_background_color (convert_RGB im) 10)
                          (max 20 (threshold - 15)) (width im) (height im)))
                  smooth_radius)"
  proof
    assume n: "\<not> retries im (max 20 (threshold - 15)) min_fg_fraction"
    have "pillow_bg_remove lib im (max 20 (threshold - 15)) smooth_radius min_fg_fraction
            = finish lib im (max 20 (threshold - 15)) smooth_radius"
      by (rule trans [OF pbr_step]) (simp add: n)
    then show "pillow_bg_remove lib im threshold smooth_radius min_fg_fraction
           = putalpha (convert_RGBA im)
               (refine_mask lib
                  (fst (build_mask (convert_RGB im) (estimate_background_color (convert_RGB im) 10)
                          (max 20 (threshold - 15)) (width im) (height im)))
                  smooth_radius)"
      unfolding 1 by (simp only: finish_eq [OF sz])
  qed
  from 1 2 3 4 5 6 show ?thesis by (intro conjI)
qed

lemma no_retry_at_floor: "t \<le> 20 \<Longrightarrow> \<not> retries im t mf"
  by (auto dest: retries_above_20)

text \<open>
  Claim C2, amended: from the starting threshold 45 the calls have the thresholds 45, or
  45 and 30, or 45, 30 and 20, so there are at most two retries; a retry lowers the
  threshold by 15, or down to the floor 20 where that is nearer; and a call with a
  threshold of 20 or less is the only call, whatever the foreground fraction.
\<close>

theorem retry_terminates_within_two:
  "map call_threshold (pillow_bg_remove_calls im 45 smooth_radius min_fg_fraction)
       \<in> {[45], [45, 30], [45, 30, 20]}
   \<and> (\<forall>t \<le> 20. map call_threshold (pillow_bg_remove_calls im t smooth_radius min_fg_fraction) = [t])"
proof -
  have c20: "pillow_bg_remove_calls im t smooth_radius min_fg_fraction = [call_of im t smooth_radius min_fg_fraction]"
    if "t \<le> 20" for t
    by (subst calls_step) (simp add: no_retry_at_floor [OF that])
  have c30: "map call_threshold (pillow_bg_remove_calls im 30 smooth_radius min_fg_fraction) \<in> {[30], [30, 20]}"
    by (subst calls_step) (simp add: c20 call_of_def)
  have c45: "map call_threshold (pillow_bg_remove_calls im 45 smooth_radius min_fg_fraction)
       \<in> {[45], [45, 30], [45, 30, 20]}"
    using c30 by (subst calls_step) (auto simp: call_of_def)
  show ?thesis using c45 c20 by (simp add: call_of_def)
qed

text \<open>
  Claim C2 as stated fails in "by at least 15": on a uniform raster the thresholds are
  45, 30 and 20, and the second retry lowers the threshold by 10.
\<close>

theorem second_retry_lowers_by_ten:
  "map call_threshold (pillow_bg_remove_calls gray_1x1 45 3 default_min_fg_fraction) = [45, 30, 20]
   \<and> \<not> (15 \<le> (30::int) - 20)"
  by (simp add: gray_1x1_thresholds)

lemma gray_1x1_fraction:
  "fg_fraction (convert_RGB gray_1x1) (estimate_background_color (convert_RGB gray_1x1) 10) 45 = Inr 0"
  by code_simp

lemma default_min_fg_fraction_pos: "0 < default_min_fg_fraction"
  by code_simp

text \<open>
  A run on \<open>faint_blue_4x1\<close>: the background colour is (0, 0, 12), at threshold 45 no
  pixel is foreground, at threshold 30 the last pixel is, and the raster returned has
  the alpha of the mask built at threshold 30.
\<close>

lemma faint_blue_fraction:
  "fg_fraction (convert_RGB faint_blue_4x1)
     (estimate_background_color (convert_RGB faint_blue_4x1) 10) 45 = Inr 0"
  by code_simp

lemma faint_blue_no_second_retry:
  "\<not> retries faint_blue_4x1 (max 20 (45 - 15)) default_min_fg_fraction"
  by code_simp

lemma faint_blue_mask_30:
  "putalpha (convert_RGBA faint_blue_4x1)
     (refine_mask plain_pillow
        (fst (build_mask (convert_RGB faint_blue_4x1)
                (estimate_background_color (convert_RGB faint_blue_4x1) 10)
                (max 20 (45 - 15)) (width faint_blue_4x1) (height faint_blue_4x1)))
        3)
   = Inr \<lparr>width = 4, height = 1,
        rows = [[(0, 0, 0, 0), (0, 0, 0, 0), (0, 0, 0, 0), (0, 0, 48, 255)]]\<rparr>"
  by code_simp

theorem retry_rebuilds_with_lowered_threshold_witness:
  "fg_fraction (convert_RGB faint_blue_4x1)
      (estimate_background_color (convert_RGB faint_blue_4x1) 10) 45 = Inr 0
   \<and> 0 < default_min_fg_fraction \<and> (20::int) < 45
   \<and> \<not> retries faint_blue_4x1 (max 20 (45 - 15)) default_min_fg_fraction
   \<and> pillow_bg_remove plain_pillow faint_blue_4x1 45 3 default_min_fg_fraction
       = Inr \<lparr>width = 4, height = 1,
            rows = [[(0, 0, 0, 0), (0, 0, 0, 0), (0, 0, 0, 0), (0, 0, 48, 255)]]\<rparr>"
proof -
  have l: "(20::int) < 45" by simp
  note t = retry_rebuilds_with_lowered_threshold
    [where lib = plain_pillow and smooth_radius = 3,
      OF faint_blue_fraction default_min_fg_fraction_pos l]
  note e = t [THEN conjunct2, THEN conjunct2, THEN conjunct2, THEN conjunct2, THEN conjunct2]
  from e faint_blue_no_second_retry
  have "pillow_bg_remove plain_pillow faint_blue_4x1 45 3 default_min_fg_fraction
     = putalpha (convert_RGBA faint_blue_4x1)
     (refine_mask plain_pillow
        (fst (build_mask (convert_RGB faint_blue_4x1)
                (estimate_background_color (convert_RGB faint_blue_4x1) 10)
                (max 20 (45 - 15)) (width faint_blue_4x1) (height faint_blue_4x1)))
        3)"
    by (rule mp)
  then have v: "pillow_bg_remove plain_pillow faint_blue_4x1 45 3 default_min_fg_fraction
       = Inr \<lparr>width = 4, height = 1,
            rows = [[(0, 0, 0, 0), (0, 0, 0, 0), (0, 0, 0, 0), (0, 0, 48, 255)]]\<rparr>"
    by (simp only: faint_blue_mask_30)
  show ?thesis
    by (intro conjI faint_blue_fraction default_min_fg_fraction_pos l faint_blue_no_second_retry v)
qed

theorem retry_terminates_within_two_witness:
  "(20::int) \<le> 20
   \<and> map call_threshold (pillow_bg_remove_calls gray_1x1 20 3 default_min_fg_fraction) = [20]
   \<and> map call_threshold (pillow_bg_remove_calls gray_1x1 45 3 default_min_fg_fraction)
       \<in> {[45], [45, 30], [45, 30, 20]}"
  using retry_terminates_within_two [of gray_1x1 3 default_min_fg_fraction] by simp

section \<open>Properties of the heuristic pipeline\<close>

lemma putalpha_Inr:
  assumes "putalpha im alpha = Inr out"
  shows "width out = width im" "height out = height im"
    and "x < width im \<Longrightarrow> y < height im \<Longrightarrow>
         rgb_of (getpixel out x y) = rgb_of (getpixel im x y) \<and> alpha_of (getpixel out x y) = getpixel alpha x y"
proof -
  from assms have out: "out = im\<lparr>rows :=
        map (\<lambda>y. map (\<lambda>x. case getpixel im x y of (r, g, b, a) \<Rightarrow> (r, g, b, getpixel alpha x y))
                   [0..<width im])
            [0..<height im]\<rparr>"
    by (simp add: putalpha_def split: if_splits)
  show "width out = width im" "height out = height im" by (simp_all add: out)
  assume xy: "x < width im" "y < height im"
  have "getpixel out x y = (case getpixel im x y of (r, g, b, a) \<Rightarrow> (r, g, b, getpixel alpha x y))"
    using xy by (simp add: out getpixel_def)
  then show "rgb_of (getpixel out x y) = rgb_of (getpixel im x y) \<and> alpha_of (getpixel out x y) = getpixel alpha x y"
    by (simp add: rgb_of_def alpha_of_def split: prod.splits)
qed

lemma finish_colors:
  assumes "finish lib im t sr = Inr out" "x < width im" "y < height im"
  shows "width out = width im \<and> height out = height im \<and> rgb_of (getpixel out x y) = rgb_of (getpixel im x y)"
proof -
  from assms(1) obtain al where p: "putalpha (convert_RGBA im) al = Inr out"
    by (auto simp: finish_def split: if_splits)
  have xy: "x < width (convert_RGBA im)" "y < height (convert_RGBA im)"
    using assms(2,3) by (simp_all add: size_convert_RGBA)
  from putalpha_Inr(1,2) [OF p] putalpha_Inr(3) [OF p xy] show ?thesis
    by (simp add: size_convert_RGBA getpixel_convert_RGBA)
qed

text \<open>
  Claim C9: when \<open>pillow_bg_remove\<close> returns a raster, it has the size of the input
  and at every pixel its red, green and blue channels are those of the input; only the
  alpha channel is replaced.
\<close>

theorem pillow_bg_remove_keeps_colors:
  assumes "pillow_bg_remove lib im threshold smooth_radius min_fg_fraction = Inr out"
    and "x < width im" and "y < height im"
  shows "width out = width im \<and> height out = height im
    \<and> rgb_of (getpixel out x y) = rgb_of (getpixel im x y)"
  using assms(1)
proof (induction "nat threshold" arbitrary: threshold rule: less_induct)
  case less
  show ?case
  proof (cases "retries im threshold min_fg_fraction")
    case True
    from less.prems have "pillow_bg_remove lib im (max 20 (threshold - 15)) smooth_radius min_fg_fraction = Inr out"
      by (subst (asm) pbr_step) (simp add: True)
    with less.hyps [OF retry_measure [OF True]] show ?thesis .
  next
    case False
    from less.prems have "finish lib im threshold smooth_radius = Inr out"
      by (subst (asm) pbr_step) (simp add: False)
    from finish_colors [OF this assms(2,3)] show ?thesis .
  qed
qed

lemma red_on_white_result:
  "pillow_bg_remove plain_pillow red_on_white 45 3 default_min_fg_fraction
     = Inr \<lparr>width = 2, height = 1, rows = [[(255, 255, 255, 255), (255, 0, 0, 255)]]\<rparr>"
  by code_simp

theorem pillow_bg_remove_keeps_colors_witness:
  "pillow_bg_remove plain_pillow red_on_white 45 3 default_min_fg_fraction
     = Inr \<lparr>width = 2, height = 1, rows = [[(255, 255, 255, 255), (255, 0, 0, 255)]]\<rparr>
   \<and> (1::nat) < width red_on_white \<and> (0::nat) < height red_on_white
   \<and> rgb_of (getpixel \<lparr>width = 2, height = 1, rows = [[(255, 255, 255, 255), (255, 0, 0, 255)]]\<rparr> 1 0)
       = rgb_of (getpixel red_on_white 1 0)"
proof -
  have s: "(1::nat) < width red_on_white" "(0::nat) < height red_on_white"
    by (simp_all add: red_on_white_def)
  note t = pillow_bg_remove_keeps_colors [OF red_on_white_result s]
  from t have c: "rgb_of (getpixel \<lparr>width = 2, height = 1, rows = [[(255, 255, 255, 255), (255, 0, 0, 255)]]\<rparr> 1 0)
       = rgb_of (getpixel red_on_white 1 0)"
    by (rule conjunct2 [THEN conjunct2])
  show ?thesis by (intro conjI red_on_white_result s c)
qed

subsection \<open>The refiner\<close>

lemma apply_until_failure_loop:
  "apply_until_failure (replicate n f @ gs) m =
     (case snd (filter_loop f n m) of
        Some e \<Rightarrow> fst (filter_loop f n m)
      | None \<Rightarrow> apply_until_failure gs (fst (filter_loop f n m)))"
  by (induction n arbitrary: m) (auto split: sum.splits option.splits)

lemma apply_until_failure_replicate:
  "apply_until_failure (replicate n f) m = fst (filter_loop f n m)"
  using apply_until_failure_loop [of n f "[]" m] by (simp split: option.splits)

lemma apply_until_failure_first:
  "f m = Inl e \<Longrightarrow> apply_until_failure (f # fs) m = m"
  by simp

text \<open>
  Claim C6, amended: a failure of a morphological filter never aborts the refiner. The
  applications that follow the failure are skipped, and the Gaussian blur runs on the
  mask as the applications before the failure left it; when the first application fails,
  as it does where the filter is unavailable, that is the unrefined mask.
\<close>

theorem refine_mask_after_failure:
  "refine_mask lib m r =
     gaussian_blur1 lib (apply_until_failure
       (replicate (nat r) (max_filter3 lib) @ replicate (nat r) (min_filter3 lib)) m)
   \<and> (max_filter3 lib m = Inl e \<longrightarrow> refine_mask lib m r = gaussian_blur1 lib m)"
proof -
  have 1: "refine_mask lib m r =
     gaussian_blur1 lib (apply_until_failure
       (replicate (nat r) (max_filter3 lib) @ replicate (nat r) (min_filter3 lib)) m)"
    by (simp add: refine_mask_def Let_def apply_until_failure_loop apply_until_failure_replicate
          split: option.splits)
  have 2: "refine_mask lib m r = gaussian_blur1 lib m" if "max_filter3 lib m = Inl e"
  proof (cases "nat r")
    case 0
    then show ?thesis by (simp add: refine_mask_def Let_def)
  next
    case (Suc k)
    then show ?thesis using that by (simp add: refine_mask_def Let_def)
  qed
  show ?thesis using 1 2 by blast
qed

theorem refine_mask_after_failure_witness:
  "max_filter3 failing_pillow black_1x1_mask = Inl (Failure ''MaxFilter'')
   \<and> refine_mask failing_pillow black_1x1_mask 3 = gaussian_blur1 failing_pillow black_1x1_mask"
proof -
  have a: "max_filter3 failing_pillow black_1x1_mask = Inl (Failure ''MaxFilter'')"
    by (simp add: failing_pillow_def)
  from refine_mask_after_failure [of failing_pillow black_1x1_mask 3 "Failure ''MaxFilter''"] a
  show ?thesis by blast
qed

text \<open>
  Claim C6 as stated fails when the failure is not the first application: with a
  dilation that succeeds and an erosion that fails, the blur runs on the dilated mask,
  not on the unrefined one.
\<close>

theorem erosion_failure_keeps_dilation:
  "min_filter3 dilating_pillow black_1x1_mask = Inl (Failure ''MinFilter'')
   \<and> refine_mask dilating_pillow black_1x1_mask 1 = \<lparr>width = 1, height = 1, rows = [[255]]\<rparr>
   \<and> gaussian_blur1 dilating_pillow black_1x1_mask = \<lparr>width = 1, height = 1, rows = [[0]]\<rparr>
   \<and> refine_mask dilating_pillow black_1x1_mask 1 \<noteq> gaussian_blur1 dilating_pillow black_1x1_mask"
  by (simp add: refine_mask_def dilating_pillow_def black_1x1_mask_def map_image_def Let_def)

subsection \<open>The orchestrator\<close>

lemma filter_loop_size:
  assumes "\<And>a b. f a = Inr b \<Longrightarrow> im_size b = im_size a"
  shows "im_size (fst (filter_loop f n m)) = im_size m"
  by (induction n arbitrary: m) (auto split: sum.splits dest: assms)

lemma refine_mask_size:
  assumes "keeps_size lib"
  shows "im_size (refine_mask lib m r) = im_size m"
proof -
  have a: "im_size (fst (filter_loop (max_filter3 lib) n x)) = im_size x" for n x
    by (rule filter_loop_size) (use assms in \<open>simp add: keeps_size_def\<close>)
  have b: "im_size (fst (filter_loop (min_filter3 lib) n x)) = im_size x" for n x
    by (rule filter_loop_size) (use assms in \<open>simp add: keeps_size_def\<close>)
  have c: "im_size (gaussian_blur1 lib x) = im_size x" for x
    using assms by (simp add: keeps_size_def)
  show ?thesis by (simp add: refine_mask_def Let_def a b c split: option.splits)
qed

lemma finish_returns:
  assumes "keeps_size lib" "0 < width im" "0 < height im"
  shows "\<exists>out. finish lib im t sr = Inr out"
proof -
  let ?m = "fst (build_mask (convert_RGB im) (estimate_background_color (convert_RGB im) 10) t (width im) (height im))"
  have "im_size (refine_mask lib ?m sr) = im_size ?m"
    by (rule refine_mask_size [OF assms(1)])
  also have "\<dots> = im_size (convert_RGBA im)"
    by (simp add: im_size_def size_build_mask size_convert_RGBA)
  finally show ?thesis using assms(2,3) by (simp add: finish_def putalpha_def)
qed

lemma pillow_bg_remove_returns:
  assumes "keeps_size lib" "0 < width im" "0 < height im"
  shows "\<exists>out. pillow_bg_remove lib im t sr mf = Inr out"
proof (induction "nat t" arbitrary: t rule: less_induct)
  case less
  show ?case
  proof (cases "retries im t mf")
    case True
    from less.hyps [OF retry_measure [OF True]] show ?thesis
      by (subst pbr_step) (simp add: True)
  next
    case False
    from finish_returns [OF assms] show ?thesis
      by (subst pbr_step) (simp add: False)
  qed
qed

text \<open>
  Claim C5: for a raster with \<open>W, H \<ge> 1\<close> (and filters that keep the size, as
  Pillow's do) \<open>remove_background\<close> returns a raster and never an exception; when
  \<open>rembg\<close> is unavailable, not requested, or fails, the result is that of the
  heuristic pipeline with threshold 45 and smoothing radius 3.
\<close>

theorem remove_background_never_raises:
  assumes "keeps_size lib" "0 < width im" "0 < height im"
  shows "(\<exists>out. remove_background ext lib im do_rembg = Inr out)
    \<and> (\<not> REMBG_AVAILABLE ext \<or> \<not> do_rembg \<or> (\<exists>e. rembg_attempt ext im = Inl e) \<longrightarrow>
         remove_background ext lib im do_rembg = pillow_bg_remove lib im 45 3 default_min_fg_fraction)"
  using pillow_bg_remove_returns [OF assms, of 45 3 default_min_fg_fraction]
  by (auto simp: remove_background_def split: sum.splits)

lemma plain_pillow_keeps_size: "keeps_size plain_pillow"
  by (simp add: keeps_size_def plain_pillow_def)

theorem remove_background_never_raises_witness:
  "keeps_size plain_pillow \<and> 0 < width red_on_white \<and> 0 < height red_on_white
   \<and> rembg_attempt broken_rembg red_on_white = Inl (Failure ''rembg'')
   \<and> remove_background broken_rembg plain_pillow red_on_white True
       = pillow_bg_remove plain_pillow red_on_white 45 3 default_min_fg_fraction"
proof -
  have s: "0 < width red_on_white" "0 < height red_on_white" by (simp_all add: red_on_white_def)
  have a: "rembg_attempt broken_rembg red_on_white = Inl (Failure ''rembg'')"
    by (simp add: rembg_attempt_def broken_rembg_def)
  from remove_background_never_raises [OF plain_pillow_keeps_size s, of broken_rembg True] a
  show ?thesis using plain_pillow_keeps_size s by auto
qed

section \<open>Properties of the input of \<open>/upload\<close>\<close>

text \<open>
  Claim C10: of the three sources one is used, in the order file, \<open>image_url\<close>,
  \<open>base64_image\<close>. A file that is present decides the result alone, with no fetch and
  no decoding; otherwise a non-empty \<open>image_url\<close> decides it alone, with no decoding;
  otherwise a non-empty \<open>base64_image\<close> decides it, with no fetch; and when all three
  are absent the request is rejected with status 400.
\<close>

theorem upload_source_precedence:
  "(file \<noteq> None \<longrightarrow>
      upload_img_bytes net file image_url base64_image = upload_img_bytes net file None None
      \<and> fst (upload_img_bytes net file image_url base64_image) = [])
   \<and> (file = None \<and> truthy image_url \<longrightarrow>
      upload_img_bytes net file image_url base64_image = upload_img_bytes net None image_url None
      \<and> (\<forall>s. Decoded s \<notin> set (fst (upload_img_bytes net file image_url base64_image))))
   \<and> (file = None \<and> \<not> truthy image_url \<and> truthy base64_image \<longrightarrow>
      upload_img_bytes net file image_url base64_image = upload_img_bytes net None None base64_image
      \<and> (\<forall>u. Fetched u \<notin> set (fst (upload_img_bytes net file image_url base64_image))))
   \<and> (file = None \<and> \<not> truthy image_url \<and> \<not> truthy base64_image \<longrightarrow>
      upload_img_bytes net file image_url base64_image
        = ([], Inl (HTTPException 400 ''No file/image_url/base64_image provided'')))"
proof (intro conjI impI)
  assume "file \<noteq> None"
  then obtain d where "file = Some d" by auto
  then show "upload_img_bytes net file image_url base64_image = upload_img_bytes net file None None"
    and "fst (upload_img_bytes net file image_url base64_image) = []"
    by (simp_all add: upload_img_bytes_def)
next
  assume a: "file = None \<and> truthy image_url"
  then show "upload_img_bytes net file image_url base64_image = upload_img_bytes net None image_url None"
    by (simp add: upload_img_bytes_def)
  from a show "\<forall>s. Decoded s \<notin> set (fst (upload_img_bytes net file image_url base64_image))"
    by (simp add: upload_img_bytes_def Let_def split: sum.splits)
next
  assume a: "file = None \<and> \<not> truthy image_url \<and> truthy base64_image"
  then show "upload_img_bytes net file image_url base64_image = upload_img_bytes net None None base64_image"
    by (simp add: upload_img_bytes_def)
  from a show "\<forall>u. Fetched u \<notin> set (fst (upload_img_bytes net file image_url base64_image))"
    by (simp add: upload_img_bytes_def Let_def split: sum.splits)
next
  assume "file = None \<and> \<not> truthy image_url \<and> \<not> truthy base64_image"
  then show "upload_img_bytes net file image_url base64_image
        = ([], Inl (HTTPException 400 ''No file/image_url/base64_image provided''))"
    by (simp add: upload_img_bytes_def)
qed

theorem upload_source_precedence_witness:
  "Some [7 :: byte] \<noteq> None
   \<and> upload_img_bytes sample_web (Some [7]) (Some ''http://a/b.png'') (Some ''AAAA'') = ([], Inr [7])
   \<and> truthy (Some ''http://a/b.png'')
   \<and> upload_img_bytes sample_web None (Some ''http://a/b.png'') (Some ''AAAA'')
       = ([Fetched ''http://a/b.png''], Inr [1, 2, 3])
   \<and> upload_img_bytes sample_web None (Some '''') (Some ''AAAA'') = ([Decoded ''AAAA''], Inr [4, 5])
   \<and> upload_img_bytes sample_web None None None
       = ([], Inl (HTTPException 400 ''No file/image_url/base64_image provided''))"
  using upload_source_precedence [of "Some [7]" sample_web "Some ''http://a/b.png''" "Some ''AAAA''"]
    upload_source_precedence [of None sample_web "Some ''http://a/b.png''" "Some ''AAAA''"]
    upload_source_precedence [of None sample_web "Some ''''" "Some ''AAAA''"]
    upload_source_precedence [of None sample_web None None]
  by (simp add: upload_img_bytes_def sample_web_def fetch_image_from_url_def MAX_UPLOAD_BYTES_def Let_def)

section \<open>Properties of \<open>downscale_if_needed\<close>\<close>

lemma scale_2215_width: "py_int (fl (2215 * fl (2048 / 2215))) = 2047"
  by code_simp

lemma scale_2215_height: "py_int (fl (1000 * fl (2048 / 2215))) = 924"
  by code_simp

text \<open>
  Claim C8 at a raster of 2215 by 1000 pixels: the float product \<open>w * scale\<close> falls
  just below 2048 and \<open>int\<close> truncates it, so the larger side of the result is 2047,
  where the claim says 2048.
\<close>

theorem downscale_2215_by_1000:
  "downscale_if_needed lanczos \<lparr>width = 2215, height = 1000, rows = rs\<rparr> MAX_DIMENSION
     = Inr \<lparr>width = 2047, height = 924,
            rows = lanczos \<lparr>width = 2215, height = 1000, rows = rs\<rparr> 2047 924\<rparr>"
  by (simp add: downscale_if_needed_def resize_def MAX_DIMENSION_def Let_def
        scale_2215_width scale_2215_height)

lemma downscale_unchanged:
  "max (width im) (height im) \<le> 2048 \<Longrightarrow> downscale_if_needed lanczos im MAX_DIMENSION = Inr im"
  by (simp add: downscale_if_needed_def MAX_DIMENSION_def Let_def)

text \<open>At 5000 by 1 pixels the smaller side truncates to 0 and \<open>resize\<close> raises.\<close>

lemma scale_5000_width:
  "py_int (fl (5000 * fl (2048 / 5000))) = 2048" "py_int (fl (5000 * fl (256 / 625))) = 2048"
  by code_simp+

lemma scale_5000_height:
  "py_int (fl (fl (2048 / 5000))) = 0" "py_int (fl (fl (256 / 625))) = 0"
  by code_simp+

lemma downscale_5000_by_1:
  "downscale_if_needed lanczos \<lparr>width = 5000, height = 1, rows = rs\<rparr> MAX_DIMENSION = Inl ValueError"
  by (simp add: downscale_if_needed_def resize_def MAX_DIMENSION_def Let_def
        scale_5000_width scale_5000_height)

end
